theory Spec2Isabelle
  imports Main "HOL-Library.Word" "HOL-Library.Sublist"
begin

section \<open>cam, the libcamera command-line controller (src/cam/main.cpp)\<close>

subsection \<open>Constants of the C library\<close>

text \<open>The values of \<^verbatim>\<open>errno.h\<close> and \<^verbatim>\<open>stdlib.h\<close> on Linux.\<close>

definition EINTR :: int where "EINTR = 4"
definition ENODEV :: int where "ENODEV = 19"
definition EINVAL :: int where "EINVAL = 22"
definition EXIT_FAILURE :: int where "EXIT_FAILURE = 1"

subsection \<open>The option set\<close>

text \<open>The option identifiers that \<^verbatim>\<open>parseOptions\<close> registers, in the order of
  registration.\<close>

datatype opt =
    OptCamera | OptCapture | OptFile | OptStream | OptHelp | OptInfo | OptList
  | OptListControls | OptListProperties | OptMonitor | OptStrictFormats | OptMetadata

datatype optvalue =
    ValueNone | ValueString string | ValueInteger int | ValueList "string list"

text \<open>Modelled from the spec: \<^verbatim>\<open>OptionsParser::Options\<close> (options.h is not among the
  sources). Section 3 describes it as an immutable mapping from option identifiers to
  absent or a typed value, with a global validity and a presence query surface. The
  mapping is kept as an association list; an option is set when it has an entry, and the
  set is empty when it has no entry at all.\<close>

record Options =
  valid :: bool
  vals :: "(opt \<times> optvalue) list"

definition isSet :: "Options \<Rightarrow> opt \<Rightarrow> bool" where
  "isSet opts opt = (opt \<in> fst ` set (vals opts))"

definition options_empty :: "Options \<Rightarrow> bool" where
  "options_empty opts = (vals opts = [])"

subsection \<open>Cameras and their display name\<close>

text \<open>What \<^verbatim>\<open>cameraName\<close> reads of a camera: its id and two entries of its property
  list, each of which may be absent. \<^verbatim>\<open>properties::Location\<close> is an integer control;
  the three enumerators have the values of libcamera's property_ids.\<close>

record camera =
  camera_id :: string
  location :: "int option"
  model :: "string option"

definition CameraLocationFront :: int where "CameraLocationFront = 0"
definition CameraLocationBack :: int where "CameraLocationBack = 1"
definition CameraLocationExternal :: int where "CameraLocationExternal = 2"

text \<open>The \<^verbatim>\<open>switch\<close> has no default: a location outside the three enumerators leaves
  \<open>name\<close> empty and \<open>addModel\<close> set. The model, when used, is assigned to \<open>name\<close>
  (\<^verbatim>\<open>name = "'" + model + "' "\<close>), so it replaces what the switch stored.\<close>

definition cameraName :: "camera \<Rightarrow> string" where
  "cameraName cam =
    (let (addModel, name) =
       (case location cam of
          None \<Rightarrow> (True, [])
        | Some l \<Rightarrow>
            if l = CameraLocationFront then (False, ''Internal front camera '')
            else if l = CameraLocationBack then (False, ''Internal back camera '')
            else if l = CameraLocationExternal then (True, ''External camera '')
            else (True, []));
         name' =
       (case model cam of
          Some m \<Rightarrow> if addModel then [CHR 0x27] @ m @ [CHR 0x27] @ '' '' else name
        | None \<Rightarrow> name)
     in name' @ ''('' @ camera_id cam @ '')'')"

text \<open>\<^verbatim>\<open>std::cout << index\<close> for an unsigned value: its decimal digits.\<close>

definition digit :: "nat \<Rightarrow> char" where
  "digit d = ''0123456789'' ! d"

function show_nat :: "nat \<Rightarrow> string" where
  "show_nat n = (if n < 10 then [digit n] else show_nat (n div 10) @ [digit (n mod 10)])"
  by pat_completeness auto
termination
  by (relation "measure id") auto

declare show_nat.simps [simp del]

subsection \<open>The process state\<close>

text \<open>What the program does to the outside, in order: lines written to standard output
  and calls on the collaborators (the option parser's usage text, the camera manager,
  the capture session, the event loop).\<close>

datatype signal = SigCaptureDone | SigCameraAdded | SigCameraRemoved

type_synonym addr = nat

datatype action =
    Cout string
  | Usage
  | CmStart | CmStop
  | SessionCreate | SessionListControls | SessionListProperties
  | SessionInfoConfiguration | SessionStart | SessionStop
  | Connect signal addr
  | LoopExec

text \<open>Modelled from the spec: the \<^verbatim>\<open>EventLoop\<close> class (event_loop.h is not among the
  sources). Section 4.3: \<open>exit(code)\<close> is a request to unblock \<open>run()\<close> with the given
  code, idempotent in effect. The loop object holds the request and its code.\<close>

record EventLoop =
  exitRequested :: bool
  exitCode :: int

definition EventLoop_exit :: "int \<Rightarrow> EventLoop \<Rightarrow> EventLoop" where
  "EventLoop_exit code l = l\<lparr>exitRequested := True, exitCode := code\<rparr>"

text \<open>The members of \<^verbatim>\<open>class CamApp\<close>, named as in the source without the trailing
  underscore (\<^verbatim>\<open>options_\<close>, \<^verbatim>\<open>cm_\<close>, \<^verbatim>\<open>loopUsers_\<close>, \<^verbatim>\<open>loop_\<close>, and
  \<^verbatim>\<open>app_\<close> below), which an Isabelle name cannot end with. \<open>cm\<close> is a
  \<^verbatim>\<open>unique_ptr\<close>: null or not. \<open>loopUsers\<close> is a \<^verbatim>\<open>std::atomic_uint\<close>, an
  unsigned 32-bit counter.\<close>

record CamApp =
  options :: Options
  cm :: bool
  loopUsers :: "32 word"
  loop :: EventLoop

text \<open>The process: the static pointer \<^verbatim>\<open>CamApp::app_\<close>, the memory holding the
  \<^verbatim>\<open>CamApp\<close> objects by address, the connected signal/slot pairs (a signal and the
  receiving object), and the trace of actions.\<close>

record process =
  app :: "addr option"
  objs :: "addr \<Rightarrow> CamApp"
  slots :: "(signal \<times> addr) list"
  out :: "action list"

definition emit :: "action list \<Rightarrow> process \<Rightarrow> process" where
  "emit as p = p\<lparr>out := out p @ as\<rparr>"

definition upd :: "addr \<Rightarrow> (CamApp \<Rightarrow> CamApp) \<Rightarrow> process \<Rightarrow> process" where
  "upd this f p = p\<lparr>objs := (objs p)(this := f (objs p this))\<rparr>"

definition connect :: "signal \<Rightarrow> addr \<Rightarrow> process \<Rightarrow> process" where
  "connect sg this p = emit [Connect sg this] (p\<lparr>slots := slots p @ [(sg, this)]\<rparr>)"

text \<open>A call either returns a value and the new state, or blocks for ever in the event
  loop (in the state it has reached), or dereferences a null pointer.\<close>

datatype 'a outcome = Returns 'a process | Blocks process | NullDeref

subsection \<open>The environment\<close>

text \<open>The work items the event loop can be given while \<^verbatim>\<open>exec()\<close> blocks: a capture
  session's completion signal, the camera manager's two hotplug signals (with the
  camera's id), and a SIGINT caught by \<^verbatim>\<open>signalHandler\<close>.\<close>

datatype event = CaptureDone | CameraAdded string | CameraRemoved string | Signal

text \<open>What the collaborators answer during one run: the option set that
  \<^verbatim>\<open>parser.parse(argc, argv)\<close> returns, the results of \<^verbatim>\<open>cm_->start()\<close>,
  \<^verbatim>\<open>cm_->cameras()\<close>, \<^verbatim>\<open>session->isValid()\<close>, \<^verbatim>\<open>session->camera()->id()\<close> and
  \<^verbatim>\<open>session->start()\<close>, the text of \<^verbatim>\<open>strerror\<close>, the number of SIGINTs caught after
  \<^verbatim>\<open>sigaction\<close> and before the plan runs, the work items that arrive while the loop
  blocks, and whether the loop latches an exit request made while it is not running
  (section 9 of the spec leaves that open).\<close>

record env =
  parsed :: Options
  cm_start :: int
  cameras :: "camera list"
  session_valid :: bool
  session_camera :: string
  session_start :: int
  strerror :: "int \<Rightarrow> string"
  early_sigint :: nat
  events :: "event list"
  latch :: bool

subsection \<open>The singleton\<close>

text \<open>\<^verbatim>\<open>CamApp *CamApp::app_ = nullptr\<close>: the process starts with no instance. The
  constructor publishes \<open>this\<close> and constructs the members that have a constructor; it
  has no initialiser for \<open>loopUsers\<close>, which keeps what the memory held.\<close>

definition process_start :: "(addr \<Rightarrow> CamApp) \<Rightarrow> process" where
  "process_start mem = \<lparr>app = None, objs = mem, slots = [], out = []\<rparr>"

definition CamApp_ctor :: "addr \<Rightarrow> process \<Rightarrow> process" where
  "CamApp_ctor this p =
    (upd this (\<lambda>a. a\<lparr>options := \<lparr>valid = False, vals = []\<rparr>, cm := False,
                       loop := \<lparr>exitRequested = False, exitCode = 0\<rparr>\<rparr>) p)\<lparr>app := Some this\<rparr>"

definition CamApp_instance :: "process \<Rightarrow> addr option" where
  "CamApp_instance p = app p"

subsection \<open>Initialisation and option parsing\<close>

definition parseOptions :: "addr \<Rightarrow> env \<Rightarrow> process \<Rightarrow> int \<times> process" where
  "parseOptions this e p =
    (let p1 = upd this (\<lambda>a. a\<lparr>options := parsed e\<rparr>) p;
         opts = options (objs p1 this)
     in if \<not> valid opts then (- EINVAL, p1)
        else if options_empty opts \<or> isSet opts OptHelp then
          (if options_empty opts then - EINVAL else - EINTR, emit [Usage] p1)
        else (0, p1))"

definition init :: "addr \<Rightarrow> env \<Rightarrow> process \<Rightarrow> int \<times> process" where
  "init this e p =
    (let (ret, p1) = parseOptions this e p
     in if ret < 0 then (ret, p1)
        else
          let p2 = emit [CmStart] (upd this (\<lambda>a. a\<lparr>cm := True\<rparr>) p1);
              ret = cm_start e
          in if ret \<noteq> 0 then
               (ret, emit [Cout (''Failed to start camera manager: '' @ strerror e (- ret))] p2)
             else (0, p2))"

definition cleanup :: "addr \<Rightarrow> process \<Rightarrow> process option" where
  "cleanup this p = (if cm (objs p this) then Some (emit [CmStop] p) else None)"

subsection \<open>The handlers\<close>

definition quit :: "addr \<Rightarrow> process \<Rightarrow> process" where
  "quit this p = upd this (\<lambda>a. a\<lparr>loop := EventLoop_exit 0 (loop a)\<rparr>) p"

definition cameraAdded :: "addr \<Rightarrow> string \<Rightarrow> process \<Rightarrow> process" where
  "cameraAdded this cam p = emit [Cout (''Camera Added: '' @ cam)] p"

definition cameraRemoved :: "addr \<Rightarrow> string \<Rightarrow> process \<Rightarrow> process" where
  "cameraRemoved this cam p = emit [Cout (''Camera Removed: '' @ cam)] p"

text \<open>\<^verbatim>\<open>if (--loopUsers_ == 0) EventLoop::instance()->exit(0)\<close>. The decrement is that
  of an unsigned 32-bit value. Modelled from the spec: \<^verbatim>\<open>EventLoop::instance()\<close>
  (event_loop.h is not among the sources); by sections 2 and 4.4 the controller owns the
  one event loop and calls \<open>exit(0)\<close> on it, so the call goes to \<open>loop\<close> of the
  controller.\<close>

definition captureDone :: "addr \<Rightarrow> process \<Rightarrow> process" where
  "captureDone this p =
    (let p1 = upd this (\<lambda>a. a\<lparr>loopUsers := loopUsers a - 1\<rparr>) p
     in if loopUsers (objs p1 this) = 0
        then upd this (\<lambda>a. a\<lparr>loop := EventLoop_exit 0 (loop a)\<rparr>) p1
        else p1)"

text \<open>\<^verbatim>\<open>CamApp::instance()->quit()\<close>: a null instance is a null pointer dereference.\<close>

definition signalHandler :: "process \<Rightarrow> process option" where
  "signalHandler p =
    (let p1 = emit [Cout ''Exiting''] p
     in case CamApp_instance p1 of
          None \<Rightarrow> None
        | Some a \<Rightarrow> Some (quit a p1))"

subsection \<open>The event loop\<close>

text \<open>Emitting a signal calls the slot of every connection of that signal, in the order
  of connection.\<close>

fun deliver :: "event \<Rightarrow> signal \<times> addr \<Rightarrow> process \<Rightarrow> process" where
  "deliver CaptureDone (SigCaptureDone, a) p = captureDone a p"
| "deliver (CameraAdded cam) (SigCameraAdded, a) p = cameraAdded a cam p"
| "deliver (CameraRemoved cam) (SigCameraRemoved, a) p = cameraRemoved a cam p"
| "deliver _ _ p = p"

definition dispatch :: "event \<Rightarrow> process \<Rightarrow> process option" where
  "dispatch ev p =
    (case ev of
       Signal \<Rightarrow> signalHandler p
     | _ \<Rightarrow> Some (fold (deliver ev) (slots p) p))"

text \<open>Modelled from the spec: \<^verbatim>\<open>EventLoop::exec()\<close> (event_loop.cpp is not among the
  sources). Section 4.3: \<open>run()\<close> blocks the calling thread, processing pending work
  items until \<open>exit(code)\<close> is invoked. With no work item left and no exit request the
  loop blocks for ever. An exit request made before the loop runs is kept when the loop
  latches and dropped otherwise.\<close>

fun exec_loop :: "addr \<Rightarrow> event list \<Rightarrow> process \<Rightarrow> int outcome" where
  "exec_loop this evs p =
    (if exitRequested (loop (objs p this)) then Returns (exitCode (loop (objs p this))) p
     else case evs of
       [] \<Rightarrow> Blocks p
     | ev # evs' \<Rightarrow>
         (case dispatch ev p of
            None \<Rightarrow> NullDeref
          | Some p' \<Rightarrow> exec_loop this evs' p'))"

declare exec_loop.simps [simp del]

definition EventLoop_exec :: "addr \<Rightarrow> env \<Rightarrow> process \<Rightarrow> int outcome" where
  "EventLoop_exec this e p =
    (let p1 = emit [LoopExec] p;
         p2 = (if latch e then p1 else upd this (\<lambda>a. a\<lparr>loop := (loop a)\<lparr>exitRequested := False\<rparr>\<rparr>) p1)
     in exec_loop this (events e) p2)"

subsection \<open>The run plan\<close>

text \<open>Step 1 of \<^verbatim>\<open>run\<close>: one line per camera, \<open>index\<close> an \<^verbatim>\<open>unsigned int\<close> that starts
  at 1.\<close>

fun list_cameras :: "32 word \<Rightarrow> camera list \<Rightarrow> action list" where
  "list_cameras index [] = []"
| "list_cameras index (cam # cams) =
     Cout (show_nat (unat index) @ '': '' @ cameraName cam) # list_cameras (index + 1) cams"

text \<open>Steps 1 to 5 of \<^verbatim>\<open>run\<close>. The result is the value of an early \<^verbatim>\<open>return\<close>, if one
  was taken, whether \<open>session\<close> is non-null, and the state.\<close>

definition plan :: "addr \<Rightarrow> env \<Rightarrow> process \<Rightarrow> int option \<times> bool \<times> process" where
  "plan this e p =
    (let opts = options (objs p this);
         p1 = (if isSet opts OptList
               then emit (Cout ''Available cameras:'' # list_cameras 1 (cameras e)) p
               else p)
     in if isSet opts OptCamera \<and> \<not> session_valid e then
          (Some (- EINVAL), True,
           emit [SessionCreate, Cout ''Failed to create camera session''] p1)
        else
          let session = isSet opts OptCamera;
              p2 = (if session
                    then connect SigCaptureDone this
                           (emit [SessionCreate, Cout (''Using camera '' @ session_camera e)] p1)
                    else p1)
          in if (isSet opts OptListControls \<or> isSet opts OptListProperties \<or> isSet opts OptInfo)
                \<and> \<not> session then
               (Some (- EINVAL), session,
                emit [Cout ''Cannot print camera information without a camera''] p2)
             else
               let p3 = emit ((if isSet opts OptListControls then [SessionListControls] else [])
                            @ (if isSet opts OptListProperties then [SessionListProperties] else [])
                            @ (if isSet opts OptInfo then [SessionInfoConfiguration] else [])) p2
               in if isSet opts OptCapture \<and> \<not> session then
                    (Some (- ENODEV), session, emit [Cout ''Can't capture without a camera''] p3)
                  else if isSet opts OptCapture \<and> session_start e \<noteq> 0 then
                    (Some (session_start e), session,
                     emit [SessionStart, Cout ''Failed to start camera session''] p3)
                  else
                    let p4 = (if isSet opts OptCapture
                              then upd this (\<lambda>a. a\<lparr>loopUsers := loopUsers a + 1\<rparr>)
                                     (emit [SessionStart] p3)
                              else p3);
                        p5 = (if isSet opts OptMonitor
                              then upd this (\<lambda>a. a\<lparr>loopUsers := loopUsers a + 1\<rparr>)
                                     (connect SigCameraRemoved this
                                       (connect SigCameraAdded this
                                         (emit [Cout ''Monitoring new hotplug and unplug events'',
                                                Cout ''Press Ctrl-C to interrupt''] p4)))
                              else p4)
                    in (None, session, p5))"

text \<open>\<^verbatim>\<open>if (loopUsers_) loop_.exec()\<close>; the value of \<open>exec()\<close> is not used.\<close>

definition wait :: "addr \<Rightarrow> env \<Rightarrow> process \<Rightarrow> unit outcome" where
  "wait this e p =
    (if loopUsers (objs p this) \<noteq> 0 then
       (case EventLoop_exec this e p of
          Returns code p' \<Rightarrow> Returns () p'
        | Blocks p' \<Rightarrow> Blocks p'
        | NullDeref \<Rightarrow> NullDeref)
     else Returns () p)"

definition run :: "addr \<Rightarrow> env \<Rightarrow> process \<Rightarrow> int outcome" where
  "run this e p =
    (case plan this e p of
       (Some ret, session, p1) \<Rightarrow> Returns ret p1
     | (None, session, p1) \<Rightarrow>
         (case wait this e p1 of
            Returns u p2 \<Rightarrow>
              if isSet (options (objs p2 this)) OptCapture then
                (if session then Returns 0 (emit [SessionStop] p2) else NullDeref)
              else Returns 0 p2
          | Blocks p2 \<Rightarrow> Blocks p2
          | NullDeref \<Rightarrow> NullDeref))"

definition exec :: "addr \<Rightarrow> env \<Rightarrow> process \<Rightarrow> int outcome" where
  "exec this e p =
    (case run this e p of
       Returns ret p1 \<Rightarrow>
         (case cleanup this p1 of
            Some p2 \<Rightarrow> Returns ret p2
          | None \<Rightarrow> NullDeref)
     | Blocks p1 \<Rightarrow> Blocks p1
     | NullDeref \<Rightarrow> NullDeref)"

subsection \<open>The entry point\<close>

text \<open>The SIGINTs that \<^verbatim>\<open>signalHandler\<close> catches after \<^verbatim>\<open>sigaction\<close> and before the
  plan runs.\<close>

fun early_signals :: "nat \<Rightarrow> process \<Rightarrow> process option" where
  "early_signals 0 p = Some p"
| "early_signals (Suc n) p =
     (case signalHandler p of None \<Rightarrow> None | Some p' \<Rightarrow> early_signals n p')"

text \<open>\<^verbatim>\<open>main\<close>: \<open>app\<close> is the local object, at some address \<open>this\<close> of a memory \<open>mem\<close>.\<close>

definition main :: "addr \<Rightarrow> (addr \<Rightarrow> CamApp) \<Rightarrow> env \<Rightarrow> int outcome" where
  "main this mem e =
    (let p = CamApp_ctor this (process_start mem);
         (ret, p1) = init this e p
     in if ret \<noteq> 0 then Returns (if ret = - EINTR then 0 else EXIT_FAILURE) p1
        else
          case early_signals (early_sigint e) p1 of
            None \<Rightarrow> NullDeref
          | Some p2 \<Rightarrow>
              (case exec this e p2 of
                 Returns ret' p3 \<Rightarrow> Returns (if ret' \<noteq> 0 then EXIT_FAILURE else 0) p3
               | Blocks p3 \<Rightarrow> Blocks p3
               | NullDeref \<Rightarrow> NullDeref))"

subsection \<open>Observations\<close>

text \<open>The value that a call returns, if it returns, and the trace of a call whether it returns
  or blocks.\<close>

fun returned :: "int outcome \<Rightarrow> int option" where
  "returned (Returns c p) = Some c"
| "returned (Blocks p) = None"
| "returned NullDeref = None"

fun trace :: "'a outcome \<Rightarrow> action list" where
  "trace (Returns c p) = out p"
| "trace (Blocks p) = out p"
| "trace NullDeref = []"

fun final :: "'a outcome \<Rightarrow> process option" where
  "final (Returns c p) = Some p"
| "final (Blocks p) = Some p"
| "final NullDeref = None"

text \<open>The connections that a plan makes: the capture session's completion signal when a
  camera was selected, the two hotplug signals when monitoring was requested.\<close>

definition plan_slots :: "addr \<Rightarrow> bool \<Rightarrow> bool \<Rightarrow> (signal \<times> addr) list" where
  "plan_slots this camera monitor =
     (if camera then [(SigCaptureDone, this)] else [])
     @ (if monitor then [(SigCameraAdded, this), (SigCameraRemoved, this)] else [])"

text \<open>The work items of a list, dispatched one after the other.\<close>

fun deliver_all :: "event list \<Rightarrow> process \<Rightarrow> process option" where
  "deliver_all [] p = Some p"
| "deliver_all (ev # evs) p =
     (case dispatch ev p of None \<Rightarrow> None | Some p' \<Rightarrow> deliver_all evs p')"

text \<open>The state in which the loop starts to process work items.\<close>

definition loop_entry :: "addr \<Rightarrow> env \<Rightarrow> process \<Rightarrow> process" where
  "loop_entry this e p =
     (if latch e then emit [LoopExec] p
      else upd this (\<lambda>a. a\<lparr>loop := (loop a)\<lparr>exitRequested := False\<rparr>\<rparr>) (emit [LoopExec] p))"

text \<open>The specification's account of when the loop returns, in its own words: at the first
  work item that is a posted signal exit or a completion that takes the counter from 1 to
  0, whichever comes first. \<open>connected\<close> says whether the completion handler is connected,
  \<open>c\<close> is the counter before the first item; the result is the position of that item.\<close>

fun first_exit :: "bool \<Rightarrow> 32 word \<Rightarrow> event list \<Rightarrow> nat option" where
  "first_exit connected c [] = None"
| "first_exit connected c (ev # evs) =
     (if ev = Signal \<or> (ev = CaptureDone \<and> connected \<and> c = 1) then Some 0
      else map_option Suc
             (first_exit connected (if ev = CaptureDone \<and> connected then c - 1 else c) evs))"

text \<open>The state in which \<open>exec\<close> is called by \<open>main\<close> with no signal caught before.\<close>

definition started :: "addr \<Rightarrow> (addr \<Rightarrow> CamApp) \<Rightarrow> env \<Rightarrow> process" where
  "started this mem e = snd (init this e (CamApp_ctor this (process_start mem)))"

text \<open>The lines of step 1 of the plan.\<close>

definition listing :: "env \<Rightarrow> action list" where
  "listing e = (if isSet (parsed e) OptList
                then Cout ''Available cameras:'' # list_cameras 1 (cameras e) else [])"

text \<open>A relation for the proofs: two states in which every object has the same option
  set and the same camera manager pointer.\<close>

definition same_setup :: "process \<Rightarrow> process \<Rightarrow> bool" where
  "same_setup p q = (\<forall>a. options (objs q a) = options (objs p a) \<and> cm (objs q a) = cm (objs p a))"

subsection \<open>Sample inputs\<close>

text \<open>A memory whose counters are all zero, and an environment in which every
  collaborator succeeds, nothing is listed and no work item arrives; the examples
  below vary it field by field.\<close>

definition zero_mem :: "addr \<Rightarrow> CamApp" where
  "zero_mem = (\<lambda>a. \<lparr>options = \<lparr>valid = False, vals = []\<rparr>, cm = False, loopUsers = 0,
                       loop = \<lparr>exitRequested = False, exitCode = 0\<rparr>\<rparr>)"

definition quiet_env :: env where
  "quiet_env = \<lparr>parsed = \<lparr>valid = True, vals = []\<rparr>, cm_start = 0, cameras = [],
                 session_valid = True, session_camera = ''cam0'', session_start = 0,
                 strerror = (\<lambda>n. ''error''), early_sigint = 0, events = [], latch = False\<rparr>"

definition list_env :: env where
  "list_env = quiet_env\<lparr>parsed := \<lparr>valid = True, vals = [(OptList, ValueNone)]\<rparr>\<rparr>"

text \<open>A memory whose counters all hold the largest value.\<close>

definition wrapped_mem :: "addr \<Rightarrow> CamApp" where
  "wrapped_mem = (\<lambda>a. \<lparr>options = \<lparr>valid = False, vals = []\<rparr>, cm = False, loopUsers = - 1,
                          loop = \<lparr>exitRequested = False, exitCode = 0\<rparr>\<rparr>)"

text \<open>An option set with the help flag.\<close>

definition help_env :: env where
  "help_env = quiet_env\<lparr>parsed := \<lparr>valid = True, vals = [(OptList, ValueNone), (OptHelp, ValueNone)]\<rparr>\<rparr>"





text \<open>Option sets for the examples, all without a selected camera.\<close>

definition info_env :: env where
  "info_env = quiet_env\<lparr>parsed := \<lparr>valid = True, vals = [(OptList, ValueNone), (OptInfo, ValueNone)]\<rparr>\<rparr>"

definition capture_env :: env where
  "capture_env = quiet_env\<lparr>parsed := \<lparr>valid = True, vals = [(OptCapture, ValueInteger 5)]\<rparr>\<rparr>"

definition capture_info_env :: env where
  "capture_info_env =
     quiet_env\<lparr>parsed := \<lparr>valid = True, vals = [(OptCapture, ValueInteger 5), (OptInfo, ValueNone)]\<rparr>\<rparr>"


text \<open>Runs that monitor the hotplug events.\<close>

definition monitor_env :: env where
  "monitor_env = quiet_env\<lparr>parsed := \<lparr>valid = True, vals = [(OptMonitor, ValueNone)]\<rparr>\<rparr>"

definition interrupted_monitor_env :: env where
  "interrupted_monitor_env = monitor_env\<lparr>events := [CameraAdded ''cam1'', Signal, CameraRemoved ''cam1'']\<rparr>"

text \<open>Runs that capture from a selected camera.\<close>

definition capture_camera_env :: env where
  "capture_camera_env =
     quiet_env\<lparr>parsed := \<lparr>valid = True,
                          vals = [(OptCamera, ValueString ''1''), (OptCapture, ValueInteger 5)]\<rparr>\<rparr>"

definition completed_capture_env :: env where
  "completed_capture_env = capture_camera_env\<lparr>events := [CaptureDone]\<rparr>"

text \<open>The scenario of the specification with capture and monitoring together.\<close>

definition capture_monitor_env :: env where
  "capture_monitor_env =
     quiet_env\<lparr>parsed := \<lparr>valid = True,
                          vals = [(OptCamera, ValueString ''1''), (OptCapture, ValueNone),
                                  (OptMonitor, ValueNone)]\<rparr>,
               events := [CaptureDone, CameraAdded ''cam1'', CaptureDone, Signal]\<rparr>"

section \<open>Basic facts\<close>

lemma emit_fields [simp]:
  "app (emit as p) = app p" "objs (emit as p) = objs p"
  "slots (emit as p) = slots p" "out (emit as p) = out p @ as"
  by (simp_all add: emit_def)

lemma upd_fields [simp]:
  "app (upd this f p) = app p" "slots (upd this f p) = slots p" "out (upd this f p) = out p"
  "objs (upd this f p) = (objs p)(this := f (objs p this))"
  by (simp_all add: upd_def)

lemma connect_fields [simp]:
  "app (connect sg this p) = app p" "objs (connect sg this p) = objs p"
  "slots (connect sg this p) = slots p @ [(sg, this)]"
  "out (connect sg this p) = out p @ [Connect sg this]"
  by (simp_all add: connect_def)

lemma captureDone_fields [simp]:
  "app (captureDone this p) = app p" "slots (captureDone this p) = slots p"
  "out (captureDone this p) = out p"
  by (simp_all add: captureDone_def Let_def)

lemma captureDone_objs:
  "objs (captureDone this p) =
     (objs p)(this := (objs p this)\<lparr>loopUsers := loopUsers (objs p this) - 1,
        loop := (if loopUsers (objs p this) = 1 then EventLoop_exit 0 (loop (objs p this))
                 else loop (objs p this))\<rparr>)"
  by (auto simp: captureDone_def Let_def fun_eq_iff)

subsection \<open>Arithmetic of the 32-bit counter\<close>

lemma nat_dec_mod:
  fixes n m :: nat
  assumes "0 < n" and "n < m"
  shows "(n + m - 1) mod m = n - 1"
proof -
  obtain k where k: "n = Suc k"
    using assms(1) by (cases n) auto
  have "n + m - 1 = k + m"
    using k by simp
  then show ?thesis
    using assms(2) k by simp
qed

lemma unat_minus_one_word32: "unat (- 1 :: 32 word) = 4294967295"
  by (simp add: unsigned_minus_1_eq_mask mask_eq_exp_minus_1)

lemma unat_dec_word32:
  fixes c :: "32 word"
  shows "unat (c - 1) = (unat c + 2 ^ 32 - 1) mod 2 ^ 32"
proof (cases "c = 0")
  case True
  then show ?thesis by (simp add: unat_minus_one_word32)
next
  case False
  then have pos: "0 < unat c"
    by (simp add: unat_gt_0)
  have lt: "unat c < 2 ^ 32"
    using unsigned_less [of c] by simp
  have "unat (c - 1) = unat c - 1"
    using pos by (simp add: unat_sub_if')
  then show ?thesis
    using nat_dec_mod [OF pos lt] by simp
qed

subsection \<open>The singleton pointer is written by the constructor only\<close>

lemma CamApp_ctor_app [simp]: "app (CamApp_ctor this p) = Some this"
  by (simp add: CamApp_ctor_def)

lemma quit_fields [simp]:
  "app (quit this p) = app p" "slots (quit this p) = slots p" "out (quit this p) = out p"
  "objs (quit this p) = (objs p)(this := (objs p this)\<lparr>loop := EventLoop_exit 0 (loop (objs p this))\<rparr>)"
  by (simp_all add: quit_def)

lemma signalHandler_eq:
  "signalHandler p = (case app p of None \<Rightarrow> None
      | Some a \<Rightarrow> Some (quit a (emit [Cout ''Exiting''] p)))"
  by (simp add: signalHandler_def CamApp_instance_def Let_def)

lemma parseOptions_app [simp]: "app (snd (parseOptions this e p)) = app p"
  by (simp add: parseOptions_def Let_def)

lemma init_app [simp]: "app (snd (init this e p)) = app p"
  by (simp add: init_def Let_def split: prod.splits if_splits) (metis parseOptions_app snd_conv)

lemma plan_app [simp]: "app (snd (snd (plan this e p))) = app p"
  by (simp add: plan_def Let_def)

lemma deliver_app [simp]: "app (deliver ev sl p) = app p"
  by (cases "(ev, sl, p)" rule: deliver.cases) (simp_all add: cameraAdded_def cameraRemoved_def)

lemma fold_deliver_app [simp]: "app (fold (deliver ev) sls p) = app p"
  by (induction sls arbitrary: p) simp_all

lemma dispatch_app: "dispatch ev p = Some p' \<Longrightarrow> app p' = app p"
  by (cases ev) (auto simp: dispatch_def signalHandler_eq split: option.splits)

lemma exec_loop_app: "final (exec_loop this evs p) = Some p' \<Longrightarrow> app p' = app p"
proof (induction evs arbitrary: p)
  case Nil
  then show ?case by (simp add: exec_loop.simps split: if_splits)
next
  case (Cons ev evs)
  show ?case
  proof (cases "exitRequested (loop (objs p this))")
    case True
    with Cons.prems show ?thesis by (simp add: exec_loop.simps)
  next
    case False
    with Cons.prems obtain q where q: "dispatch ev p = Some q"
      and f: "final (exec_loop this evs q) = Some p'"
      by (auto simp: exec_loop.simps [of this "ev # evs"] split: option.splits)
    from Cons.IH [OF f] dispatch_app [OF q] show ?thesis by simp
  qed
qed

lemma EventLoop_exec_app: "final (EventLoop_exec this e p) = Some p' \<Longrightarrow> app p' = app p"
  by (auto simp: EventLoop_exec_def Let_def dest!: exec_loop_app split: if_splits)

lemma final_wait:
  "final (wait this e p) =
     (if loopUsers (objs p this) \<noteq> 0 then final (EventLoop_exec this e p) else Some p)"
  by (simp add: wait_def split: outcome.splits)

lemma wait_app: "final (wait this e p) = Some p' \<Longrightarrow> app p' = app p"
  by (auto simp: final_wait dest: EventLoop_exec_app split: if_splits)

lemma run_app:
  assumes "final (run this e p) = Some p'"
  shows "app p' = app p"
proof (cases "plan this e p")
  case (fields ret session p1)
  have p1: "app p1 = app p"
    using plan_app [of this e p] fields by simp
  show ?thesis
  proof (cases ret)
    case (Some r)
    with assms fields p1 show ?thesis by (simp add: run_def)
  next
    case None
    show ?thesis
    proof (cases "wait this e p1")
      case (Returns u p2)
      then have "app p2 = app p1"
        using wait_app [of this e p1 p2] by simp
      with assms fields None Returns p1 show ?thesis
        by (auto simp: run_def split: if_splits)
    next
      case (Blocks p2)
      then have "app p2 = app p1"
        using wait_app [of this e p1 p2] by simp
      with assms fields None Blocks p1 show ?thesis
        by (simp add: run_def)
    next
      case NullDeref
      with assms fields None show ?thesis by (simp add: run_def)
    qed
  qed
qed

lemma exec_app:
  assumes "final (exec this e p) = Some p'"
  shows "app p' = app p"
proof (cases "run this e p")
  case (Returns ret p1)
  then have "app p1 = app p"
    using run_app [of this e p p1] by simp
  with assms Returns show ?thesis
    by (auto simp: exec_def cleanup_def split: if_splits)
next
  case (Blocks p1)
  then have "app p1 = app p"
    using run_app [of this e p p1] by simp
  with assms Blocks show ?thesis by (simp add: exec_def)
next
  case NullDeref
  with assms show ?thesis by (simp add: exec_def)
qed



lemmas run_defs =
  main_def init_def parseOptions_def exec_def run_def plan_def wait_def EventLoop_exec_def
  cleanup_def isSet_def options_empty_def CamApp_ctor_def process_start_def Let_def
  EINVAL_def EINTR_def ENODEV_def EXIT_FAILURE_def exec_loop.simps dispatch_def
  signalHandler_eq cameraAdded_def cameraRemoved_def captureDone_objs EventLoop_exit_def

subsection \<open>The camera listing\<close>




subsection \<open>The event loop\<close>

lemma dispatch_plan_slots:
  assumes "slots p = plan_slots this conn mon"
  shows "dispatch CaptureDone p = Some (if conn then captureDone this p else p)"
    and "dispatch (CameraAdded cam) p = Some (if mon then cameraAdded this cam p else p)"
    and "dispatch (CameraRemoved cam) p = Some (if mon then cameraRemoved this cam p else p)"
  using assms by (simp_all add: dispatch_def plan_slots_def)

lemma dispatch_Signal:
  "app p = Some this \<Longrightarrow> dispatch Signal p = Some (quit this (emit [Cout ''Exiting''] p))"
  by (simp add: dispatch_def signalHandler_eq)

text \<open>One work item, for the connections of a plan.\<close>

lemma dispatch_step:
  assumes "app p = Some this" and "slots p = plan_slots this conn mon"
  shows "\<exists>q. dispatch ev p = Some q \<and> app q = Some this \<and> slots q = slots p
           \<and> loopUsers (objs q this)
               = (if ev = CaptureDone \<and> conn then loopUsers (objs p this) - 1
                  else loopUsers (objs p this))
           \<and> loop (objs q this)
               = (if ev = Signal \<or> (ev = CaptureDone \<and> conn \<and> loopUsers (objs p this) = 1)
                  then EventLoop_exit 0 (loop (objs p this)) else loop (objs p this))
           \<and> options (objs q this) = options (objs p this)
           \<and> cm (objs q this) = cm (objs p this)"
proof (cases ev)
  case CaptureDone
  then show ?thesis
    using assms by (simp add: dispatch_plan_slots [OF assms(2)] captureDone_objs)
next
  case (CameraAdded cam)
  then show ?thesis
    using assms by (simp add: dispatch_plan_slots [OF assms(2)] cameraAdded_def)
next
  case (CameraRemoved cam)
  then show ?thesis
    using assms by (simp add: dispatch_plan_slots [OF assms(2)] cameraRemoved_def)
next
  case Signal
  then show ?thesis
    using assms by (simp add: dispatch_Signal)
qed

lemma exec_loop_first_exit:
  assumes "app p = Some this" and "slots p = plan_slots this conn mon"
      and "\<not> exitRequested (loop (objs p this))"
  shows "case first_exit conn (loopUsers (objs p this)) evs of
           None \<Rightarrow> \<exists>p'. deliver_all evs p = Some p' \<and> exec_loop this evs p = Blocks p'
         | Some i \<Rightarrow> \<exists>p'. deliver_all (take (Suc i) evs) p = Some p'
                         \<and> exec_loop this evs p = Returns 0 p'"
  using assms
proof (induction evs arbitrary: p)
  case Nil
  then show ?case by (simp add: exec_loop.simps)
next
  case (Cons ev evs)
  from dispatch_step [OF Cons.prems(1,2), of ev]
  obtain q where q: "dispatch ev p = Some q" "app q = Some this" "slots q = slots p"
    and users: "loopUsers (objs q this)
               = (if ev = CaptureDone \<and> conn then loopUsers (objs p this) - 1
                  else loopUsers (objs p this))"
    and lp: "loop (objs q this)
               = (if ev = Signal \<or> (ev = CaptureDone \<and> conn \<and> loopUsers (objs p this) = 1)
                  then EventLoop_exit 0 (loop (objs p this)) else loop (objs p this))"
    by blast
  have unfold: "exec_loop this (ev # evs) p = exec_loop this evs q"
    using Cons.prems(3) q(1) by (simp add: exec_loop.simps [of this "ev # evs"])
  show ?case
  proof (cases "ev = Signal \<or> (ev = CaptureDone \<and> conn \<and> loopUsers (objs p this) = 1)")
    case True
    then have "exec_loop this evs q = Returns 0 q"
      using lp by (simp add: exec_loop.simps [of this evs] EventLoop_exit_def)
    with True unfold q(1) show ?thesis
      by simp
  next
    case False
    then have "loop (objs q this) = loop (objs p this)"
      using lp by (simp only: if_False)
    then have "\<not> exitRequested (loop (objs q this))"
      using Cons.prems(3) by simp
    from Cons.IH [OF q(2) _ this] q(3) Cons.prems(2)
    have "case first_exit conn (loopUsers (objs q this)) evs of
           None \<Rightarrow> \<exists>p'. deliver_all evs q = Some p' \<and> exec_loop this evs q = Blocks p'
         | Some i \<Rightarrow> \<exists>p'. deliver_all (take (Suc i) evs) q = Some p'
                         \<and> exec_loop this evs q = Returns 0 p'"
      by simp
    with False unfold q(1) users show ?thesis
      by (auto split: option.splits)
  qed
qed

subsection \<open>The plan and the signals caught before it\<close>

lemma plan_error:
  "fst (plan this e p) =
     (let opts = options (objs p this)
      in if isSet opts OptCamera \<and> \<not> session_valid e then Some (- EINVAL)
         else if (isSet opts OptListControls \<or> isSet opts OptListProperties \<or> isSet opts OptInfo)
                 \<and> \<not> isSet opts OptCamera then Some (- EINVAL)
         else if isSet opts OptCapture \<and> \<not> isSet opts OptCamera then Some (- ENODEV)
         else if isSet opts OptCapture \<and> session_start e \<noteq> 0 then Some (session_start e)
         else None)"
  by (simp add: plan_def Let_def)

lemma plan_None:
  assumes "plan this e p = (None, session, p1)"
  shows "session = isSet (options (objs p this)) OptCamera
         \<and> (isSet (options (objs p this)) OptCapture \<longrightarrow> session \<and> session_start e = 0)
         \<and> app p1 = app p
         \<and> slots p1 = slots p @ plan_slots this (isSet (options (objs p this)) OptCamera)
                                   (isSet (options (objs p this)) OptMonitor)
         \<and> loopUsers (objs p1 this)
             = loopUsers (objs p this)
               + (if isSet (options (objs p this)) OptCapture then 1 else 0)
               + (if isSet (options (objs p this)) OptMonitor then 1 else 0)
         \<and> loop (objs p1 this) = loop (objs p this)
         \<and> options (objs p1 this) = options (objs p this)
         \<and> cm (objs p1 this) = cm (objs p this)"
proof -
  let ?opts = "options (objs p this)"
  have "fst (plan this e p) = None"
    using assms by simp
  then have c: "\<not> (isSet ?opts OptCamera \<and> \<not> session_valid e)"
      "\<not> ((isSet ?opts OptListControls \<or> isSet ?opts OptListProperties \<or> isSet ?opts OptInfo)
          \<and> \<not> isSet ?opts OptCamera)"
      "\<not> (isSet ?opts OptCapture \<and> \<not> isSet ?opts OptCamera)"
      "\<not> (isSet ?opts OptCapture \<and> session_start e \<noteq> 0)"
    unfolding plan_error Let_def by (simp_all split: if_splits)
  have s: "session = fst (snd (plan this e p))" and p1: "p1 = snd (snd (plan this e p))"
    using assms by simp_all
  have "fst (snd (plan this e p)) = isSet ?opts OptCamera"
    using c by (simp add: plan_def Let_def)
  moreover have "slots (snd (snd (plan this e p)))
      = slots p @ plan_slots this (isSet ?opts OptCamera) (isSet ?opts OptMonitor)"
    using c by (auto simp: plan_def Let_def plan_slots_def)
  moreover have "objs (snd (snd (plan this e p))) this
      = (objs p this)\<lparr>loopUsers := loopUsers (objs p this)
               + (if isSet ?opts OptCapture then 1 else 0)
               + (if isSet ?opts OptMonitor then 1 else 0)\<rparr>"
    using c by (auto simp: plan_def Let_def)
  ultimately show ?thesis
    using c s p1 by simp
qed

lemma plan_without_camera:
  assumes "\<not> isSet (options (objs p this)) OptCamera"
  shows "plan this e p =
    (let opts = options (objs p this);
         p1 = emit (if isSet opts OptList
                    then Cout ''Available cameras:'' # list_cameras 1 (cameras e) else []) p
     in if isSet opts OptListControls \<or> isSet opts OptListProperties \<or> isSet opts OptInfo
        then (Some (- EINVAL), False,
              emit [Cout ''Cannot print camera information without a camera''] p1)
        else if isSet opts OptCapture
        then (Some (- ENODEV), False, emit [Cout ''Can't capture without a camera''] p1)
        else (None, False,
              if isSet opts OptMonitor
              then upd this (\<lambda>a. a\<lparr>loopUsers := loopUsers a + 1\<rparr>)
                     (connect SigCameraRemoved this
                       (connect SigCameraAdded this
                         (emit [Cout ''Monitoring new hotplug and unplug events'',
                                Cout ''Press Ctrl-C to interrupt''] p1)))
              else p1))"
  using assms by (simp add: plan_def Let_def emit_def)

lemma early_signals_eq:
  assumes "app p = Some this"
  shows "\<exists>q. early_signals n p = Some q \<and> app q = app p \<and> slots q = slots p
           \<and> out q = out p @ replicate n (Cout ''Exiting'')
           \<and> options (objs q this) = options (objs p this)
           \<and> cm (objs q this) = cm (objs p this)
           \<and> loopUsers (objs q this) = loopUsers (objs p this)
           \<and> exitRequested (loop (objs q this)) = (0 < n \<or> exitRequested (loop (objs p this)))"
  using assms
proof (induction n arbitrary: p)
  case 0
  then show ?case by simp
next
  case (Suc n)
  let ?p' = "quit this (emit [Cout ''Exiting''] p)"
  have sh: "signalHandler p = Some ?p'"
    using Suc.prems by (simp add: signalHandler_eq)
  have "app ?p' = Some this"
    using Suc.prems by simp
  from Suc.IH [OF this] obtain q where q: "early_signals n ?p' = Some q" "app q = app ?p'"
      "slots q = slots ?p'" "out q = out ?p' @ replicate n (Cout ''Exiting'')"
      "options (objs q this) = options (objs ?p' this)"
      "cm (objs q this) = cm (objs ?p' this)"
      "loopUsers (objs q this) = loopUsers (objs ?p' this)"
      "exitRequested (loop (objs q this)) = (0 < n \<or> exitRequested (loop (objs ?p' this)))"
    by blast
  show ?case
    using sh q by (simp add: EventLoop_exit_def replicate_append_same)
qed

subsection \<open>What a run leaves alone\<close>

text \<open>No handler and no step of the plan writes \<open>options\<close> or \<open>cm\<close> of any object.\<close>

lemma same_setup_refl [simp]: "same_setup p p"
  by (simp add: same_setup_def)

lemma same_setup_trans: "same_setup p q \<Longrightarrow> same_setup q r \<Longrightarrow> same_setup p r"
  by (simp add: same_setup_def)

lemma deliver_setup: "same_setup p (deliver ev sl p)"
  by (cases "(ev, sl, p)" rule: deliver.cases)
    (simp_all add: same_setup_def cameraAdded_def cameraRemoved_def captureDone_objs)

lemma fold_deliver_setup: "same_setup p (fold (deliver ev) sls p)"
proof (induction sls arbitrary: p)
  case Nil
  show ?case by simp
next
  case (Cons sl sls)
  from same_setup_trans [OF deliver_setup Cons.IH] show ?case by simp
qed

lemma dispatch_setup: "dispatch ev p = Some q \<Longrightarrow> same_setup p q"
proof (cases ev)
  case Signal
  assume "dispatch ev p = Some q"
  with Signal show ?thesis
    by (auto simp: dispatch_def signalHandler_eq same_setup_def split: option.splits if_splits)
qed (use fold_deliver_setup in \<open>auto simp: dispatch_def\<close>)

lemma exec_loop_setup: "final (exec_loop this evs p) = Some p' \<Longrightarrow> same_setup p p'"
proof (induction evs arbitrary: p)
  case Nil
  then show ?case by (simp add: exec_loop.simps split: if_splits)
next
  case (Cons ev evs)
  show ?case
  proof (cases "exitRequested (loop (objs p this))")
    case True
    with Cons.prems show ?thesis by (simp add: exec_loop.simps)
  next
    case False
    with Cons.prems obtain q where q: "dispatch ev p = Some q"
      and f: "final (exec_loop this evs q) = Some p'"
      by (auto simp: exec_loop.simps [of this "ev # evs"] split: option.splits)
    from same_setup_trans [OF dispatch_setup [OF q] Cons.IH [OF f]] show ?thesis .
  qed
qed

lemma wait_setup:
  assumes "final (wait this e p) = Some p'"
  shows "same_setup p p'"
proof (cases "loopUsers (objs p this) = 0")
  case True
  with assms show ?thesis by (simp add: final_wait)
next
  case False
  let ?p2 = "if latch e then emit [LoopExec] p
             else upd this (\<lambda>a. a\<lparr>loop := (loop a)\<lparr>exitRequested := False\<rparr>\<rparr>) (emit [LoopExec] p)"
  have "final (exec_loop this (events e) ?p2) = Some p'"
    using assms False by (simp add: final_wait EventLoop_exec_def Let_def)
  from exec_loop_setup [OF this] show ?thesis
    by (simp add: same_setup_def split: if_splits)
qed

lemma plan_setup: "same_setup p (snd (snd (plan this e p)))"
  by (simp add: plan_def Let_def same_setup_def)

lemma run_setup:
  assumes "final (run this e p) = Some p'"
  shows "same_setup p p'"
proof (cases "plan this e p")
  case (fields ret session p1)
  have p1: "same_setup p p1"
    using plan_setup [of p this e] fields by simp
  show ?thesis
  proof (cases ret)
    case (Some r)
    with assms fields p1 show ?thesis by (simp add: run_def)
  next
    case None
    show ?thesis
    proof (cases "wait this e p1")
      case (Returns u p2)
      then have p2: "same_setup p1 p2"
        using wait_setup [of this e p1 p2] by simp
      have "p' = p2 \<or> p' = emit [SessionStop] p2"
        using assms fields None Returns by (auto simp: run_def split: if_splits)
      then have "same_setup p2 p'"
        by (auto simp: same_setup_def)
      from same_setup_trans [OF same_setup_trans [OF p1 p2] this] show ?thesis .
    next
      case (Blocks p2)
      then have "same_setup p1 p2"
        using wait_setup [of this e p1 p2] by simp
      from same_setup_trans [OF p1 this] assms fields None Blocks show ?thesis
        by (simp add: run_def)
    next
      case NullDeref
      with assms fields None show ?thesis by (simp add: run_def)
    qed
  qed
qed

lemma exec_eq:
  assumes "cm (objs p this)"
  shows "exec this e p =
           (case run this e p of
              Returns ret p1 \<Rightarrow> Returns ret (emit [CmStop] p1)
            | Blocks p1 \<Rightarrow> Blocks p1
            | NullDeref \<Rightarrow> NullDeref)"
proof (cases "run this e p")
  case (Returns ret p1)
  then have "same_setup p p1"
    using run_setup [of this e p p1] by simp
  with assms have "cm (objs p1 this)"
    by (simp add: same_setup_def)
  with Returns show ?thesis
    by (simp add: exec_def cleanup_def)
qed (simp_all add: exec_def)

lemma init_eq:
  "init this e p =
     (let p1 = upd this (\<lambda>a. a\<lparr>options := parsed e\<rparr>) p
      in if \<not> valid (parsed e) then (- EINVAL, p1)
         else if options_empty (parsed e) then (- EINVAL, emit [Usage] p1)
         else if isSet (parsed e) OptHelp then (- EINTR, emit [Usage] p1)
         else if cm_start e \<noteq> 0 then
           (cm_start e,
            emit [Cout (''Failed to start camera manager: '' @ strerror e (- cm_start e))]
              (emit [CmStart] (upd this (\<lambda>a. a\<lparr>cm := True\<rparr>) p1)))
         else (0, emit [CmStart] (upd this (\<lambda>a. a\<lparr>cm := True\<rparr>) p1)))"
  by (simp add: init_def parseOptions_def Let_def EINVAL_def EINTR_def)

text \<open>\<open>main\<close> once \<open>init\<close> has succeeded.\<close>

lemma main_after_init:
  assumes "valid (parsed e)" and "\<not> options_empty (parsed e)"
      and "\<not> isSet (parsed e) OptHelp" and "cm_start e = 0"
  shows "\<exists>p. main this mem e =
               (case run this e p of
                  Returns ret p1 \<Rightarrow> Returns (if ret \<noteq> 0 then EXIT_FAILURE else 0) (emit [CmStop] p1)
                | Blocks p1 \<Rightarrow> Blocks p1
                | NullDeref \<Rightarrow> NullDeref)
             \<and> app p = Some this \<and> slots p = []
             \<and> out p = CmStart # replicate (early_sigint e) (Cout ''Exiting'')
             \<and> options (objs p this) = parsed e \<and> cm (objs p this)
             \<and> loopUsers (objs p this) = loopUsers (mem this)
             \<and> exitRequested (loop (objs p this)) = (0 < early_sigint e)"
proof -
  let ?p2 = "emit [CmStart] (upd this (\<lambda>a. a\<lparr>cm := True\<rparr>)
               (upd this (\<lambda>a. a\<lparr>options := parsed e\<rparr>) (CamApp_ctor this (process_start mem))))"
  have i: "init this e (CamApp_ctor this (process_start mem)) = (0, ?p2)"
    using assms by (simp add: init_eq Let_def)
  have "app ?p2 = Some this"
    by simp
  from early_signals_eq [OF this, of "early_sigint e"]
  obtain q where q: "early_signals (early_sigint e) ?p2 = Some q" "app q = app ?p2"
      "slots q = slots ?p2" "out q = out ?p2 @ replicate (early_sigint e) (Cout ''Exiting'')"
      "options (objs q this) = options (objs ?p2 this)"
      "cm (objs q this) = cm (objs ?p2 this)"
      "loopUsers (objs q this) = loopUsers (objs ?p2 this)"
      "exitRequested (loop (objs q this)) = (0 < early_sigint e \<or> exitRequested (loop (objs ?p2 this)))"
    by blast
  have cmq: "cm (objs q this)"
    using q(6) by simp
  have "main this mem e =
          (case exec this e q of
             Returns ret' p3 \<Rightarrow> Returns (if ret' \<noteq> 0 then EXIT_FAILURE else 0) p3
           | Blocks p3 \<Rightarrow> Blocks p3
           | NullDeref \<Rightarrow> NullDeref)"
    using i q(1) by (simp add: main_def Let_def)
  then have "main this mem e =
               (case run this e q of
                  Returns ret p1 \<Rightarrow> Returns (if ret \<noteq> 0 then EXIT_FAILURE else 0) (emit [CmStop] p1)
                | Blocks p1 \<Rightarrow> Blocks p1
                | NullDeref \<Rightarrow> NullDeref)"
    by (simp add: exec_eq [OF cmq] split: outcome.splits)
  moreover have "app q = Some this" "slots q = []"
      "out q = CmStart # replicate (early_sigint e) (Cout ''Exiting'')"
      "options (objs q this) = parsed e"
      "loopUsers (objs q this) = loopUsers (mem this)"
      "exitRequested (loop (objs q this)) = (0 < early_sigint e)"
    using q by (simp_all add: CamApp_ctor_def process_start_def)
  ultimately show ?thesis
    using cmq by (intro exI [of _ q]) simp
qed

subsection \<open>Failure of the camera manager\<close>

lemma cm_start_failure_otherwise:
  assumes "valid (parsed e)" and "\<not> options_empty (parsed e)" and "\<not> isSet (parsed e) OptHelp"
      and "cm_start e \<noteq> 0" and "cm_start e \<noteq> - EINTR"
  shows "returned (main this mem e) = Some EXIT_FAILURE"
  using assms by (simp add: main_def init_eq Let_def EINTR_def EINVAL_def)

subsection \<open>Runs without a camera\<close>

lemma run_without_camera:
  assumes "\<not> isSet (options (objs p this)) OptCamera"
  shows "isSet (options (objs p this)) OptListControls \<or> isSet (options (objs p this)) OptListProperties
           \<or> isSet (options (objs p this)) OptInfo \<Longrightarrow>
         run this e p = Returns (- EINVAL)
           (emit [Cout ''Cannot print camera information without a camera'']
             (emit (if isSet (options (objs p this)) OptList
                    then Cout ''Available cameras:'' # list_cameras 1 (cameras e) else []) p))"
    and "\<not> isSet (options (objs p this)) OptListControls \<Longrightarrow>
         \<not> isSet (options (objs p this)) OptListProperties \<Longrightarrow>
         \<not> isSet (options (objs p this)) OptInfo \<Longrightarrow> isSet (options (objs p this)) OptCapture \<Longrightarrow>
         run this e p = Returns (- ENODEV)
           (emit [Cout ''Can't capture without a camera'']
             (emit (if isSet (options (objs p this)) OptList
                    then Cout ''Available cameras:'' # list_cameras 1 (cameras e) else []) p))"
  by (simp_all add: run_def plan_without_camera [OF assms] Let_def)

lemma list_cameras_Cout: "a \<in> set (list_cameras index cams) \<Longrightarrow> \<exists>l. a = Cout l"
  by (induction cams arbitrary: index) auto

lemma listing_Cout: "a \<in> set (listing e) \<Longrightarrow> \<exists>l. a = Cout l"
  by (auto simp: listing_def dest: list_cameras_Cout split: if_splits)

lemma set_nonempty: "isSet opts opt \<Longrightarrow> \<not> options_empty opts"
  by (auto simp: isSet_def options_empty_def)

subsection \<open>Waiting for the loop\<close>

lemma first_exit_Signal: "Signal \<in> set evs \<Longrightarrow> \<exists>i. first_exit conn c evs = Some i"
  by (induction evs arbitrary: c) auto

lemma first_exit_no_CaptureDone:
  "CaptureDone \<notin> set evs \<Longrightarrow> (first_exit conn c evs = None) = (Signal \<notin> set evs)"
  by (induction evs arbitrary: c) auto

lemma deliver_all_users:
  assumes "app p = Some this" and "slots p = plan_slots this conn mon"
      and "CaptureDone \<notin> set evs" and "deliver_all evs p = Some q"
  shows "loopUsers (objs q this) = loopUsers (objs p this)"
  using assms
proof (induction evs arbitrary: p)
  case Nil
  then show ?case by simp
next
  case (Cons ev evs)
  from dispatch_step [OF Cons.prems(1,2), of ev]
  obtain r where r: "dispatch ev p = Some r" "app r = Some this" "slots r = slots p"
    and users: "loopUsers (objs r this)
               = (if ev = CaptureDone \<and> conn then loopUsers (objs p this) - 1
                  else loopUsers (objs p this))"
    by blast
  have d: "deliver_all evs r = Some q"
    using Cons.prems(4) r(1) by simp
  have s: "slots r = plan_slots this conn mon"
    using r(3) Cons.prems(2) by simp
  have n: "CaptureDone \<notin> set evs" and ne: "ev \<noteq> CaptureDone"
    using Cons.prems(3) by auto
  have "loopUsers (objs q this) = loopUsers (objs r this)"
    using r(2) s n d by (rule Cons.IH)
  with users ne show ?case
    by simp
qed

lemma wait_first_exit:
  assumes "app p = Some this" and "slots p = plan_slots this conn mon"
      and "loopUsers (objs p this) \<noteq> 0"
      and "\<not> (latch e \<and> exitRequested (loop (objs p this)))"
  shows "case first_exit conn (loopUsers (objs p this)) (events e) of
           None \<Rightarrow> \<exists>p'. deliver_all (events e) (loop_entry this e p) = Some p'
                        \<and> wait this e p = Blocks p'
         | Some i \<Rightarrow> \<exists>p'. deliver_all (take (Suc i) (events e)) (loop_entry this e p) = Some p'
                         \<and> wait this e p = Returns () p'"
proof -
  let ?p = "loop_entry this e p"
  have w: "wait this e p =
             (case exec_loop this (events e) ?p of
                Returns code p' \<Rightarrow> Returns () p' | Blocks p' \<Rightarrow> Blocks p' | NullDeref \<Rightarrow> NullDeref)"
    using assms(3) by (simp add: wait_def EventLoop_exec_def loop_entry_def Let_def)
  have "app ?p = Some this" "slots ?p = plan_slots this conn mon"
      "\<not> exitRequested (loop (objs ?p this))"
      "loopUsers (objs ?p this) = loopUsers (objs p this)"
    using assms by (auto simp: loop_entry_def)
  from exec_loop_first_exit [OF this(1,2,3), of "events e"] this(4) w show ?thesis
    by (auto split: option.splits)
qed

lemma wait_latched:
  assumes "loopUsers (objs p this) \<noteq> 0" and "latch e" and "exitRequested (loop (objs p this))"
  shows "wait this e p = Returns () (emit [LoopExec] p)"
  using assms by (simp add: wait_def EventLoop_exec_def Let_def exec_loop.simps)

lemma wait_idle: "loopUsers (objs p this) = 0 \<Longrightarrow> wait this e p = Returns () p"
  by (simp add: wait_def)


lemma run_eq_None:
  assumes "plan this e p = (None, session, p1)"
  shows "run this e p =
           (case wait this e p1 of
              Returns u p2 \<Rightarrow>
                Returns 0 (if isSet (options (objs p this)) OptCapture
                           then emit [SessionStop] p2 else p2)
            | Blocks p2 \<Rightarrow> Blocks p2
            | NullDeref \<Rightarrow> NullDeref)"
proof (cases "wait this e p1")
  case (Returns u p2)
  then have "same_setup p1 p2"
    using wait_setup [of this e p1 p2] by simp
  then have "options (objs p2 this) = options (objs p this)"
    using plan_None [OF assms] by (simp add: same_setup_def)
  moreover have "isSet (options (objs p this)) OptCapture \<longrightarrow> session"
    using plan_None [OF assms] by blast
  ultimately show ?thesis
    using Returns assms by (simp add: run_def)
qed (use assms in \<open>simp_all add: run_def\<close>)

text \<open>The handlers of the loop write lines to standard output and nothing else to the
  trace.\<close>

lemma deliver_out: "\<exists>ls. out (deliver ev sl p) = out p @ map Cout ls"
proof (cases "(ev, sl, p)" rule: deliver.cases)
  case (2 cam a p)
  then show ?thesis
    by (intro exI [of _ "[''Camera Added: '' @ cam]"]) (simp add: cameraAdded_def)
next
  case (3 cam a p)
  then show ?thesis
    by (intro exI [of _ "[''Camera Removed: '' @ cam]"]) (simp add: cameraRemoved_def)
qed (auto intro: exI [of _ "[]"])


lemma fold_deliver_out: "\<exists>ls. out (fold (deliver ev) sls p) = out p @ map Cout ls"
proof (induction sls arbitrary: p)
  case Nil
  show ?case by (intro exI [of _ "[]"]) simp
next
  case (Cons sl sls)
  obtain ls1 where l1: "out (deliver ev sl p) = out p @ map Cout ls1"
    using deliver_out by blast
  obtain ls2 where "out (fold (deliver ev) sls (deliver ev sl p)) = out (deliver ev sl p) @ map Cout ls2"
    using Cons.IH by blast
  with l1 show ?case
    by (intro exI [of _ "ls1 @ ls2"]) simp
qed

lemma dispatch_out: "dispatch ev p = Some q \<Longrightarrow> \<exists>ls. out q = out p @ map Cout ls"
proof (cases ev)
  case Signal
  assume "dispatch ev p = Some q"
  with Signal show ?thesis
    by (intro exI [of _ "[''Exiting'']"])
      (auto simp: dispatch_def signalHandler_eq split: option.splits)
qed (use fold_deliver_out in \<open>auto simp: dispatch_def\<close>)

lemma deliver_all_out: "deliver_all evs p = Some q \<Longrightarrow> \<exists>ls. out q = out p @ map Cout ls"
proof (induction evs arbitrary: p)
  case Nil
  then show ?case by (intro exI [of _ "[]"]) simp
next
  case (Cons ev evs)
  then obtain r where r: "dispatch ev p = Some r" "deliver_all evs r = Some q"
    by (auto split: option.splits)
  obtain ls1 where l1: "out r = out p @ map Cout ls1"
    using dispatch_out [OF r(1)] by blast
  obtain ls2 where "out q = out r @ map Cout ls2"
    using Cons.IH [OF r(2)] by blast
  with l1 show ?case
    by (intro exI [of _ "ls1 @ ls2"]) simp
qed

text \<open>What \<open>wait\<close> does, for the connections of a plan: unless it blocks, it returns
  having written the loop's entry and lines of output, if the counter is not 0, and
  nothing otherwise.\<close>

lemma wait_cases:
  assumes "app p = Some this" and "slots p = plan_slots this conn mon"
  shows "(\<exists>p' ls. wait this e p = Returns () p'
            \<and> out p' = out p @ (if loopUsers (objs p this) \<noteq> 0 then [LoopExec] else []) @ map Cout ls)
         \<or> (\<exists>p' ls. wait this e p = Blocks p' \<and> loopUsers (objs p this) \<noteq> 0
               \<and> first_exit conn (loopUsers (objs p this)) (events e) = None
               \<and> out p' = out p @ [LoopExec] @ map Cout ls)"
proof (cases "loopUsers (objs p this) = 0")
  case True
  then show ?thesis
    by (intro disjI1 exI [of _ p] exI [of _ "[]"]) (simp add: wait_idle)
next
  case nz: False
  show ?thesis
  proof (cases "latch e \<and> exitRequested (loop (objs p this))")
    case True
    then show ?thesis
      using nz by (intro disjI1 exI [of _ "emit [LoopExec] p"] exI [of _ "[]"]) (simp add: wait_latched)
  next
    case False
    note w = wait_first_exit [OF assms nz False]
    show ?thesis
    proof (cases "first_exit conn (loopUsers (objs p this)) (events e)")
      case None
      with w obtain p' where p': "deliver_all (events e) (loop_entry this e p) = Some p'"
          "wait this e p = Blocks p'"
        by auto
      obtain ls where "out p' = out (loop_entry this e p) @ map Cout ls"
        using deliver_all_out [OF p'(1)] by blast
      then have "out p' = out p @ [LoopExec] @ map Cout ls"
        by (simp add: loop_entry_def split: if_splits)
      with p'(2) nz None show ?thesis
        by auto
    next
      case (Some i)
      with w obtain p' where p': "deliver_all (take (Suc i) (events e)) (loop_entry this e p) = Some p'"
          "wait this e p = Returns () p'"
        by auto
      obtain ls where "out p' = out (loop_entry this e p) @ map Cout ls"
        using deliver_all_out [OF p'(1)] by blast
      then have "out p' = out p @ [LoopExec] @ map Cout ls"
        by (simp add: loop_entry_def split: if_splits)
      with p'(2) nz show ?thesis
        by auto
    qed
  qed
qed

lemma wait_returns_on_signal:
  assumes "app p = Some this" and "slots p = plan_slots this conn mon"
      and "Signal \<in> set (events e)"
  shows "\<exists>p'. wait this e p = Returns () p'"
  using wait_cases [OF assms(1,2), of e] first_exit_Signal [OF assms(3), of conn "loopUsers (objs p this)"]
  by auto

subsection \<open>Runs in which the signal handler has fired\<close>





subsection \<open>Counting the calls on the capture session\<close>

lemma count_list_Cout: "(\<forall>l. a \<noteq> Cout l) \<Longrightarrow> count_list (map Cout ls) a = 0"
  by (induction ls) auto

lemma count_list_list_cameras: "(\<forall>l. a \<noteq> Cout l) \<Longrightarrow> count_list (list_cameras index cams) a = 0"
  by (induction cams arbitrary: index) auto

lemma plan_capture_started:
  assumes "isSet (options (objs p this)) OptCapture" and "isSet (options (objs p this)) OptCamera"
      and "session_valid e" and "session_start e = 0"
  shows "fst (plan this e p) = None"
    and "count_list (out (snd (snd (plan this e p)))) SessionStop = count_list (out p) SessionStop"
    and "count_list (out (snd (snd (plan this e p)))) SessionStart
           = Suc (count_list (out p) SessionStart)"
  using assms
  by (simp_all add: plan_error plan_def Let_def count_list_list_cameras)

subsection \<open>The state at the entry of the loop\<close>

lemma loop_entry_fields [simp]:
  "app (loop_entry this e p) = app p" "slots (loop_entry this e p) = slots p"
  "out (loop_entry this e p) = out p @ [LoopExec]"
  "loopUsers (objs (loop_entry this e p) a) = loopUsers (objs p a)"
  "options (objs (loop_entry this e p) a) = options (objs p a)"
  by (simp_all add: loop_entry_def)

section \<open>The claims\<close>

subsection \<open>C1: the counter governs the loop\<close>

text \<open>C1. The counter is unsigned, so it is never negative. When the plan has passed its
  steps 1 to 5, the counter has grown by one for a started capture and by one for
  monitoring; the event loop is entered if and only if the counter is then not 0; and an
  entered loop returns at the first work item that is a caught signal or a completion
  that takes the counter from 1 to 0, after the items up to that one were delivered, and
  then \<open>run\<close> returns 0; with no such item it blocks. (The loop starts without a pending
  exit request: either it does not latch requests made before it runs, or none was
  made.)\<close>

theorem counter_governs_loop:
  assumes "app p = Some this" and "slots p = []" and "plan this e p = (None, session, p1)"
      and "\<not> (latch e \<and> exitRequested (loop (objs p this)))"
  shows "0 \<le> uint (loopUsers (objs q a))
         \<and> loopUsers (objs p1 this)
             = loopUsers (objs p this)
               + (if isSet (options (objs p this)) OptCapture then 1 else 0)
               + (if isSet (options (objs p this)) OptMonitor then 1 else 0)
         \<and> (LoopExec \<in> set (drop (length (out p1)) (trace (run this e p))))
             = (loopUsers (objs p1 this) \<noteq> 0)
         \<and> (loopUsers (objs p1 this) \<noteq> 0 \<longrightarrow>
              (case first_exit (isSet (options (objs p this)) OptCamera)
                      (loopUsers (objs p1 this)) (events e) of
                 None \<Rightarrow> \<exists>p'. deliver_all (events e) (loop_entry this e p1) = Some p'
                              \<and> wait this e p1 = Blocks p' \<and> run this e p = Blocks p'
               | Some i \<Rightarrow> \<exists>p'. deliver_all (take (Suc i) (events e)) (loop_entry this e p1) = Some p'
                               \<and> wait this e p1 = Returns () p'
                               \<and> returned (run this e p) = Some 0))"
proof -
  let ?conn = "isSet (options (objs p this)) OptCamera"
  let ?mon = "isSet (options (objs p this)) OptMonitor"
  note r = run_eq_None [OF assms(3)]
  note pn = plan_None [OF assms(3)]
  have p1: "app p1 = Some this" "slots p1 = plan_slots this ?conn ?mon"
    using pn assms(1,2) by simp_all
  have nl: "\<not> (latch e \<and> exitRequested (loop (objs p1 this)))"
    using pn assms(4) by simp
  have users: "loopUsers (objs p1 this)
             = loopUsers (objs p this)
               + (if isSet (options (objs p this)) OptCapture then 1 else 0)
               + (if ?mon then 1 else 0)"
    using pn by simp
  have entered: "(LoopExec \<in> set (drop (length (out p1)) (trace (run this e p))))
             = (loopUsers (objs p1 this) \<noteq> 0)"
  proof -
    from wait_cases [OF p1, of e]
    consider (ret) p' ls where "wait this e p1 = Returns () p'"
        "out p' = out p1 @ (if loopUsers (objs p1 this) \<noteq> 0 then [LoopExec] else []) @ map Cout ls"
      | (blk) p' ls where "wait this e p1 = Blocks p'" "loopUsers (objs p1 this) \<noteq> 0"
        "out p' = out p1 @ [LoopExec] @ map Cout ls"
      by blast
    then show ?thesis
    proof cases
      case ret
      then show ?thesis
        using r by auto
    next
      case blk
      then show ?thesis
        using r by simp
    qed
  qed
  have loop: "case first_exit ?conn (loopUsers (objs p1 this)) (events e) of
                 None \<Rightarrow> \<exists>p'. deliver_all (events e) (loop_entry this e p1) = Some p'
                              \<and> wait this e p1 = Blocks p' \<and> run this e p = Blocks p'
               | Some i \<Rightarrow> \<exists>p'. deliver_all (take (Suc i) (events e)) (loop_entry this e p1) = Some p'
                               \<and> wait this e p1 = Returns () p'
                               \<and> returned (run this e p) = Some 0"
    if nz: "loopUsers (objs p1 this) \<noteq> 0"
    using wait_first_exit [OF p1 nz nl] r
    by (auto split: option.splits)
  show ?thesis
    using users entered loop by simp
qed

theorem counter_governs_loop_witness:
  "app (started 0 zero_mem capture_monitor_env) = Some 0
   \<and> slots (started 0 zero_mem capture_monitor_env) = []
   \<and> fst (plan 0 capture_monitor_env (started 0 zero_mem capture_monitor_env)) = None
   \<and> \<not> latch capture_monitor_env
   \<and> loopUsers (objs (snd (snd (plan 0 capture_monitor_env (started 0 zero_mem capture_monitor_env)))) 0) = 2
   \<and> first_exit True 2 (events capture_monitor_env) = Some 2
   \<and> returned (run 0 capture_monitor_env (started 0 zero_mem capture_monitor_env)) = Some 0"
proof -
  let ?e = capture_monitor_env
  let ?p = "started 0 zero_mem ?e"
  have opts: "options (objs ?p 0) = parsed ?e" and users0: "loopUsers (objs ?p 0) = 0"
    and h1: "app ?p = Some 0" and h2: "slots ?p = []"
    and h4: "\<not> (latch ?e \<and> exitRequested (loop (objs ?p 0)))"
    by (simp_all add: started_def capture_monitor_env_def quiet_env_def init_eq Let_def isSet_def
        options_empty_def CamApp_ctor_def process_start_def zero_mem_def)
  have none: "fst (plan 0 ?e ?p) = None"
    by (simp add: plan_error opts Let_def) (simp add: capture_monitor_env_def quiet_env_def isSet_def)
  then obtain session p1 where h3: "plan 0 ?e ?p = (None, session, p1)"
    by (cases "plan 0 ?e ?p") auto
  have sets: "isSet (options (objs ?p 0)) OptCapture" "isSet (options (objs ?p 0)) OptMonitor"
      "isSet (options (objs ?p 0)) OptCamera"
    by (simp_all add: opts) (simp_all add: capture_monitor_env_def quiet_env_def isSet_def)
  have fe: "first_exit True 2 (events ?e) = Some 2"
    by (simp add: capture_monitor_env_def quiet_env_def)
  from counter_governs_loop [OF h1 h2 h3 h4] sets users0 fe h3
  have "loopUsers (objs p1 0) = 2" and "returned (run 0 ?e ?p) = Some 0"
    by auto
  with h1 h2 none h3 fe show ?thesis
    by (simp add: capture_monitor_env_def quiet_env_def)
qed

subsection \<open>C2: the exit code of an interrupted run\<close>




subsection \<open>C3: help and the empty option set\<close>

text \<open>C3. A valid option set with the help flag and a valid option set that is empty both
  print the usage text and nothing else; the first makes the process exit with 0, the
  second with \<open>EXIT_FAILURE\<close>, which is not 0. The traces are equal: only the exit
  code tells the two outcomes apart.\<close>

theorem help_and_empty_outcomes:
  assumes "valid (parsed e1)" and "isSet (parsed e1) OptHelp"
      and "valid (parsed e2)" and "options_empty (parsed e2)"
  shows "returned (main this mem e1) = Some 0
         \<and> trace (main this mem e1) = [Usage]
         \<and> returned (main this mem e2) = Some EXIT_FAILURE
         \<and> trace (main this mem e2) = [Usage]
         \<and> EXIT_FAILURE \<noteq> 0"
proof -
  have ne: "\<not> options_empty (parsed e1)"
    using assms(2) by (auto simp: isSet_def options_empty_def)
  have "main this mem e1 = Returns 0
          (emit [Usage] (upd this (\<lambda>a. a\<lparr>options := parsed e1\<rparr>) (CamApp_ctor this (process_start mem))))"
    using assms(1,2) ne
    by (simp add: main_def init_eq Let_def EINTR_def EINVAL_def)
  moreover have "main this mem e2 = Returns EXIT_FAILURE
          (emit [Usage] (upd this (\<lambda>a. a\<lparr>options := parsed e2\<rparr>) (CamApp_ctor this (process_start mem))))"
    using assms(3,4)
    by (simp add: main_def init_eq Let_def EINTR_def EINVAL_def)
  ultimately show ?thesis
    by (simp add: CamApp_ctor_def process_start_def EXIT_FAILURE_def)
qed

theorem help_and_empty_outcomes_witness:
  "valid (parsed help_env) \<and> isSet (parsed help_env) OptHelp
   \<and> valid (parsed quiet_env) \<and> options_empty (parsed quiet_env)
   \<and> main 0 zero_mem help_env
       = Returns 0 (emit [Usage] (upd 0 (\<lambda>a. a\<lparr>options := parsed help_env\<rparr>)
                                   (CamApp_ctor 0 (process_start zero_mem))))
   \<and> main 0 zero_mem quiet_env
       = Returns 1 (emit [Usage] (upd 0 (\<lambda>a. a\<lparr>options := parsed quiet_env\<rparr>)
                                   (CamApp_ctor 0 (process_start zero_mem))))
   \<and> returned (main 0 zero_mem help_env) = Some 0
   \<and> returned (main 0 zero_mem quiet_env) = Some 1"
  using help_and_empty_outcomes [of help_env quiet_env 0 zero_mem]
  by (simp add: help_env_def quiet_env_def isSet_def options_empty_def main_def init_def
      parseOptions_def Let_def EINVAL_def EINTR_def EXIT_FAILURE_def)

subsection \<open>C4: actions that need a camera\<close>

text \<open>C4, as stated, has every run that requests capture without a camera fail with the
  ``no device'' condition. When the information on the camera is requested as well, step 3
  comes first: the run fails with the ``no camera'' condition \<open>-EINVAL\<close>, not with
  \<open>-ENODEV\<close>.\<close>

theorem capture_and_info_without_camera_counterexample:
  "isSet (parsed capture_info_env) OptCapture \<and> \<not> isSet (parsed capture_info_env) OptCamera
   \<and> returned (run 0 capture_info_env (started 0 zero_mem capture_info_env)) = Some (- EINVAL)
   \<and> - EINVAL \<noteq> - ENODEV
   \<and> trace (main 0 zero_mem capture_info_env)
       = [CmStart, Cout ''Cannot print camera information without a camera'', CmStop]"
  by (simp add: capture_info_env_def quiet_env_def started_def run_defs zero_mem_def)

text \<open>C4, amended. Once \<open>init\<close> has succeeded and no camera is selected: a request for
  the controls, the properties or the stream information makes the run fail with
  \<open>-EINVAL\<close> and the ``no camera'' line; a request for capture, with none of these three,
  makes it fail with the distinct \<open>-ENODEV\<close> and the ``no device'' line. In both cases the
  line follows at once on the listing of step 1 (and the lines of signals caught before
  the plan), the only later action is the stop of the camera manager, the event loop is
  not entered and the process exits with \<open>EXIT_FAILURE\<close>, which is not 0.\<close>

theorem no_camera_failures:
  assumes "valid (parsed e1)" and "\<not> isSet (parsed e1) OptHelp" and "cm_start e1 = 0"
      and "\<not> isSet (parsed e1) OptCamera"
      and "isSet (parsed e1) OptListControls \<or> isSet (parsed e1) OptListProperties
           \<or> isSet (parsed e1) OptInfo"
      and "valid (parsed e2)" and "\<not> isSet (parsed e2) OptHelp" and "cm_start e2 = 0"
      and "\<not> isSet (parsed e2) OptCamera"
      and "isSet (parsed e2) OptCapture"
      and "\<not> isSet (parsed e2) OptListControls" and "\<not> isSet (parsed e2) OptListProperties"
      and "\<not> isSet (parsed e2) OptInfo"
  shows "returned (main this mem e1) = Some EXIT_FAILURE
         \<and> trace (main this mem e1)
             = CmStart # replicate (early_sigint e1) (Cout ''Exiting'') @ listing e1
               @ [Cout ''Cannot print camera information without a camera'', CmStop]
         \<and> (\<forall>p. options (objs p this) = parsed e1 \<longrightarrow> returned (run this e1 p) = Some (- EINVAL))
         \<and> returned (main this mem e2) = Some EXIT_FAILURE
         \<and> trace (main this mem e2)
             = CmStart # replicate (early_sigint e2) (Cout ''Exiting'') @ listing e2
               @ [Cout ''Can't capture without a camera'', CmStop]
         \<and> (\<forall>p. options (objs p this) = parsed e2 \<longrightarrow> returned (run this e2 p) = Some (- ENODEV))
         \<and> - EINVAL \<noteq> - ENODEV \<and> EXIT_FAILURE \<noteq> 0
         \<and> LoopExec \<notin> set (trace (main this mem e1))
         \<and> LoopExec \<notin> set (trace (main this mem e2))"
proof -
  have ne1: "\<not> options_empty (parsed e1)"
    using assms(5) set_nonempty by blast
  from main_after_init [OF assms(1) ne1 assms(2,3), of this mem]
  obtain p1 where p1: "main this mem e1 =
               (case run this e1 p1 of
                  Returns ret q \<Rightarrow> Returns (if ret \<noteq> 0 then EXIT_FAILURE else 0) (emit [CmStop] q)
                | Blocks q \<Rightarrow> Blocks q
                | NullDeref \<Rightarrow> NullDeref)"
      "out p1 = CmStart # replicate (early_sigint e1) (Cout ''Exiting'')"
      "options (objs p1 this) = parsed e1"
    by blast
  have m1: "returned (main this mem e1) = Some EXIT_FAILURE
         \<and> trace (main this mem e1)
             = CmStart # replicate (early_sigint e1) (Cout ''Exiting'') @ listing e1
               @ [Cout ''Cannot print camera information without a camera'', CmStop]"
    using p1 assms(4,5) by (simp add: run_without_camera(1) listing_def EINVAL_def)
  have r1: "\<forall>p. options (objs p this) = parsed e1 \<longrightarrow> returned (run this e1 p) = Some (- EINVAL)"
    using assms(4,5) by (simp add: run_without_camera(1))
  have ne2: "\<not> options_empty (parsed e2)"
    using assms(10) set_nonempty by blast
  from main_after_init [OF assms(6) ne2 assms(7,8), of this mem]
  obtain p2 where p2: "main this mem e2 =
               (case run this e2 p2 of
                  Returns ret q \<Rightarrow> Returns (if ret \<noteq> 0 then EXIT_FAILURE else 0) (emit [CmStop] q)
                | Blocks q \<Rightarrow> Blocks q
                | NullDeref \<Rightarrow> NullDeref)"
      "out p2 = CmStart # replicate (early_sigint e2) (Cout ''Exiting'')"
      "options (objs p2 this) = parsed e2"
    by blast
  have m2: "returned (main this mem e2) = Some EXIT_FAILURE
         \<and> trace (main this mem e2)
             = CmStart # replicate (early_sigint e2) (Cout ''Exiting'') @ listing e2
               @ [Cout ''Can't capture without a camera'', CmStop]"
    using p2 assms(9-13) by (simp add: run_without_camera(2) listing_def ENODEV_def)
  have r2: "\<forall>p. options (objs p this) = parsed e2 \<longrightarrow> returned (run this e2 p) = Some (- ENODEV)"
    using assms(9-13) by (simp add: run_without_camera(2))
  have "LoopExec \<notin> set (listing e1)" and "LoopExec \<notin> set (listing e2)"
    using listing_Cout by blast+
  then show ?thesis
    using m1 r1 m2 r2 by (simp add: EINVAL_def ENODEV_def EXIT_FAILURE_def)
qed

theorem no_camera_failures_witness:
  "valid (parsed info_env) \<and> \<not> isSet (parsed info_env) OptHelp \<and> cm_start info_env = 0
   \<and> \<not> isSet (parsed info_env) OptCamera \<and> isSet (parsed info_env) OptInfo
   \<and> valid (parsed capture_env) \<and> \<not> isSet (parsed capture_env) OptHelp \<and> cm_start capture_env = 0
   \<and> \<not> isSet (parsed capture_env) OptCamera \<and> isSet (parsed capture_env) OptCapture
   \<and> \<not> isSet (parsed capture_env) OptListControls \<and> \<not> isSet (parsed capture_env) OptListProperties
   \<and> \<not> isSet (parsed capture_env) OptInfo
   \<and> returned (main 0 zero_mem info_env) = Some 1
   \<and> trace (main 0 zero_mem info_env)
       = [CmStart, Cout ''Available cameras:'',
          Cout ''Cannot print camera information without a camera'', CmStop]
   \<and> returned (main 0 zero_mem capture_env) = Some 1
   \<and> trace (main 0 zero_mem capture_env) = [CmStart, Cout ''Can't capture without a camera'', CmStop]"
  using no_camera_failures [of info_env capture_env 0 zero_mem]
  by (simp add: info_env_def capture_env_def quiet_env_def isSet_def listing_def EXIT_FAILURE_def)

subsection \<open>C5: the camera manager fails to start\<close>

text \<open>C5. The code at a failing start of the camera manager whose error is \<open>-EINTR\<close>,
  the value that \<open>parseOptions\<close> uses for a help request: \<open>init\<close> prints the failure and
  returns the error, and \<open>main\<close> takes it for the help outcome and exits with 0. Every
  other nonzero result of the start gives \<open>EXIT_FAILURE\<close> (lemma
  \<open>cm_start_failure_otherwise\<close>).\<close>

theorem cm_start_EINTR_exits_zero:
  "returned (main this mem (list_env\<lparr>cm_start := - EINTR\<rparr>)) = Some 0
   \<and> trace (main this mem (list_env\<lparr>cm_start := - EINTR\<rparr>))
       = [CmStart, Cout (''Failed to start camera manager: '' @ strerror list_env EINTR)]"
  by (simp add: main_def init_eq Let_def list_env_def quiet_env_def isSet_def options_empty_def
      EINTR_def EINVAL_def CamApp_ctor_def process_start_def)

subsection \<open>C6: the capture session is stopped once\<close>

text \<open>C6. When capture was started (capture requested, a camera selected, the session
  valid and its start successful), every return of \<open>run\<close> is with 0, its last action is
  the stop of the session, and the run has added exactly one stop and one start to the
  trace. The run does return when the loop terminates, be it through a caught signal or
  through the counter reaching zero.\<close>

theorem capture_stopped_once:
  assumes "isSet (options (objs p this)) OptCapture" and "isSet (options (objs p this)) OptCamera"
      and "session_valid e" and "session_start e = 0"
      and "app p = Some this" and "slots p = []"
  shows "(\<forall>ret p'. run this e p = Returns ret p' \<longrightarrow>
            ret = 0 \<and> last (out p') = SessionStop
            \<and> count_list (out p') SessionStop = Suc (count_list (out p) SessionStop)
            \<and> count_list (out p') SessionStart = Suc (count_list (out p) SessionStart))
         \<and> (Signal \<in> set (events e) \<longrightarrow> (\<exists>p'. run this e p = Returns 0 p'))
         \<and> (first_exit True (loopUsers (objs p this) + 1
                 + (if isSet (options (objs p this)) OptMonitor then 1 else 0)) (events e) \<noteq> None
              \<longrightarrow> (\<exists>p'. run this e p = Returns 0 p'))"
proof -
  obtain session p1 where pl: "plan this e p = (None, session, p1)"
    using plan_capture_started(1) [OF assms(1-4)] by (cases "plan this e p") auto
  note r = run_eq_None [OF pl]
  note pn = plan_None [OF pl]
  have p1: "app p1 = Some this" "slots p1 = plan_slots this True (isSet (options (objs p this)) OptMonitor)"
    using pn assms by simp_all
  have users: "loopUsers (objs p1 this) = loopUsers (objs p this) + 1
                 + (if isSet (options (objs p this)) OptMonitor then 1 else 0)"
    using pn assms(1) by simp
  have c1: "count_list (out p1) SessionStop = count_list (out p) SessionStop"
    and c2: "count_list (out p1) SessionStart = Suc (count_list (out p) SessionStart)"
    using plan_capture_started(2,3) [OF assms(1-4)] pl by simp_all
  have a: "ret = 0 \<and> last (out p') = SessionStop
            \<and> count_list (out p') SessionStop = Suc (count_list (out p) SessionStop)
            \<and> count_list (out p') SessionStart = Suc (count_list (out p) SessionStart)"
    if ret: "run this e p = Returns ret p'" for ret p'
  proof -
    from ret r assms(1) obtain p2 where p2: "wait this e p1 = Returns () p2"
      and p': "p' = emit [SessionStop] p2" and "ret = 0"
      by (auto split: outcome.splits)
    from wait_cases [OF p1, of e] p2 obtain ls where
      "out p2 = out p1 @ (if loopUsers (objs p1 this) \<noteq> 0 then [LoopExec] else []) @ map Cout ls"
      by auto
    then show ?thesis
      using p' \<open>ret = 0\<close> c1 c2 by (simp add: count_list_Cout)
  qed
  have b: "\<exists>p'. run this e p = Returns 0 p'" if "Signal \<in> set (events e)"
  proof -
    from wait_returns_on_signal [OF p1 that] obtain p2 where "wait this e p1 = Returns () p2"
      by blast
    with r show ?thesis by simp
  qed
  have c: "\<exists>p'. run this e p = Returns 0 p'"
    if "first_exit True (loopUsers (objs p this) + 1
          + (if isSet (options (objs p this)) OptMonitor then 1 else 0)) (events e) \<noteq> None"
  proof -
    from wait_cases [OF p1, of e] that users obtain p2 where "wait this e p1 = Returns () p2"
      by auto
    with r show ?thesis by simp
  qed
  from a b c show ?thesis
    by blast
qed

theorem capture_stopped_once_witness:
  "isSet (options (objs (started 0 zero_mem completed_capture_env) 0)) OptCapture
   \<and> isSet (options (objs (started 0 zero_mem completed_capture_env) 0)) OptCamera
   \<and> session_valid completed_capture_env \<and> session_start completed_capture_env = 0
   \<and> app (started 0 zero_mem completed_capture_env) = Some 0
   \<and> slots (started 0 zero_mem completed_capture_env) = []
   \<and> (\<exists>p'. run 0 completed_capture_env (started 0 zero_mem completed_capture_env) = Returns 0 p'
          \<and> out p' = [CmStart, SessionCreate, Cout ''Using camera cam0'',
                       Connect SigCaptureDone 0, SessionStart, LoopExec, SessionStop]
          \<and> count_list (out p') SessionStop = 1)"
proof -
  let ?p = "started 0 zero_mem completed_capture_env"
  have h: "isSet (options (objs ?p 0)) OptCapture" "isSet (options (objs ?p 0)) OptCamera"
      "session_valid completed_capture_env" "session_start completed_capture_env = 0"
      "app ?p = Some 0" "slots ?p = []"
    by (simp_all add: started_def completed_capture_env_def capture_camera_env_def quiet_env_def
        init_eq Let_def isSet_def options_empty_def CamApp_ctor_def process_start_def)
  have o: "out ?p = [CmStart]"
    by (simp add: started_def completed_capture_env_def capture_camera_env_def quiet_env_def
        init_eq Let_def isSet_def options_empty_def CamApp_ctor_def process_start_def)
  have "\<exists>p'. run 0 completed_capture_env ?p = Returns 0 p'
          \<and> out p' = [CmStart, SessionCreate, Cout ''Using camera cam0'',
                       Connect SigCaptureDone 0, SessionStart, LoopExec, SessionStop]"
    by (simp add: started_def completed_capture_env_def capture_camera_env_def quiet_env_def
        run_defs zero_mem_def)
  then obtain p' where p': "run 0 completed_capture_env ?p = Returns 0 p'"
      "out p' = [CmStart, SessionCreate, Cout ''Using camera cam0'',
                 Connect SigCaptureDone 0, SessionStart, LoopExec, SessionStop]"
    by blast
  from capture_stopped_once [OF h] p'(1) o
  have "count_list (out p') SessionStop = 1"
    by simp
  with h p' show ?thesis
    by blast
qed

subsection \<open>C7: the camera listing and the display name\<close>





subsection \<open>C8: the hotplug handlers only print\<close>

text \<open>The two hotplug handlers append one line to the output and change nothing else:
  not the counter, not the exit request of the loop. So in a run that monitors and does
  not capture, with no exit request pending and no completion among the work items, the
  counter is one more than at the start when the loop is entered, and it stays so. Unless
  the counter started at \<open>2 ^ 32 - 1\<close>, it never reaches zero; the run returns (with 0)
  only if a SIGINT is among the work items, and otherwise blocks in the loop for ever.\<close>

lemma hotplug_handlers_only_print:
  assumes "isSet (options (objs p this)) OptMonitor" and "\<not> isSet (options (objs p this)) OptCapture"
      and "plan this e p = (None, session, p1)"
      and "app p = Some this" and "slots p = []" and "loopUsers (objs p this) + 1 \<noteq> 0"
      and "CaptureDone \<notin> set (events e)"
      and "\<not> (latch e \<and> exitRequested (loop (objs p this)))"
  shows "cameraAdded a cam q = q\<lparr>out := out q @ [Cout (''Camera Added: '' @ cam)]\<rparr>
         \<and> cameraRemoved a cam q = q\<lparr>out := out q @ [Cout (''Camera Removed: '' @ cam)]\<rparr>
         \<and> loopUsers (objs p1 this) = loopUsers (objs p this) + 1
         \<and> (case run this e p of
               Returns ret p' \<Rightarrow> Signal \<in> set (events e) \<and> ret = 0
                 \<and> loopUsers (objs p' this) = loopUsers (objs p this) + 1
             | Blocks p' \<Rightarrow> Signal \<notin> set (events e)
                 \<and> loopUsers (objs p' this) = loopUsers (objs p this) + 1
             | NullDeref \<Rightarrow> False)"
proof -
  let ?conn = "isSet (options (objs p this)) OptCamera"
  note r = run_eq_None [OF assms(3)]
  note pn = plan_None [OF assms(3)]
  have p1: "app p1 = Some this" "slots p1 = plan_slots this ?conn True"
    using pn assms(1,4,5) by simp_all
  have users: "loopUsers (objs p1 this) = loopUsers (objs p this) + 1"
    using pn assms(1,2) by simp
  then have nz: "loopUsers (objs p1 this) \<noteq> 0"
    using assms(6) by simp
  have nl: "\<not> (latch e \<and> exitRequested (loop (objs p1 this)))"
    using pn assms(8) by simp
  have entry: "app (loop_entry this e p1) = Some this"
      "slots (loop_entry this e p1) = plan_slots this ?conn True"
    using p1 by simp_all
  note w = wait_first_exit [OF p1 nz nl]
  have run_cases: "case run this e p of
               Returns ret p' \<Rightarrow> Signal \<in> set (events e) \<and> ret = 0
                 \<and> loopUsers (objs p' this) = loopUsers (objs p this) + 1
             | Blocks p' \<Rightarrow> Signal \<notin> set (events e)
                 \<and> loopUsers (objs p' this) = loopUsers (objs p this) + 1
             | NullDeref \<Rightarrow> False"
  proof (cases "first_exit ?conn (loopUsers (objs p1 this)) (events e)")
    case None
    then have ns: "Signal \<notin> set (events e)"
      using first_exit_no_CaptureDone [OF assms(7)] by simp
    from w None obtain p' where p': "deliver_all (events e) (loop_entry this e p1) = Some p'"
        "wait this e p1 = Blocks p'"
      by auto
    have "loopUsers (objs p' this) = loopUsers (objs (loop_entry this e p1) this)"
      using entry assms(7) p'(1) by (rule deliver_all_users)
    with users ns p'(2) r show ?thesis
      by simp
  next
    case (Some i)
    then have s: "Signal \<in> set (events e)"
      using first_exit_no_CaptureDone [OF assms(7), of ?conn "loopUsers (objs p1 this)"] by auto
    from w Some obtain p' where p': "deliver_all (take (Suc i) (events e)) (loop_entry this e p1) = Some p'"
        "wait this e p1 = Returns () p'"
      by auto
    have "CaptureDone \<notin> set (take (Suc i) (events e))"
      using assms(7) by (meson in_set_takeD)
    with entry have "loopUsers (objs p' this) = loopUsers (objs (loop_entry this e p1) this)"
      using p'(1) by (rule deliver_all_users)
    with users s p'(2) r assms(2) show ?thesis
      by simp
  qed
  show ?thesis
    using users run_cases by (simp add: cameraAdded_def cameraRemoved_def emit_def)
qed

lemma hotplug_handlers_only_print_example:
  "isSet (options (objs (started 0 zero_mem interrupted_monitor_env) 0)) OptMonitor
   \<and> \<not> isSet (options (objs (started 0 zero_mem interrupted_monitor_env) 0)) OptCapture
   \<and> fst (plan 0 interrupted_monitor_env (started 0 zero_mem interrupted_monitor_env)) = None
   \<and> app (started 0 zero_mem interrupted_monitor_env) = Some 0
   \<and> slots (started 0 zero_mem interrupted_monitor_env) = []
   \<and> loopUsers (objs (started 0 zero_mem interrupted_monitor_env) 0) + 1 \<noteq> 0
   \<and> CaptureDone \<notin> set (events interrupted_monitor_env)
   \<and> \<not> latch interrupted_monitor_env
   \<and> (\<exists>p'. run 0 interrupted_monitor_env (started 0 zero_mem interrupted_monitor_env) = Returns 0 p'
          \<and> loopUsers (objs p' 0) = 1)
   \<and> (\<exists>p'. run 0 monitor_env (started 0 zero_mem monitor_env) = Blocks p' \<and> loopUsers (objs p' 0) = 1)"
proof -
  let ?e = interrupted_monitor_env
  let ?p = "started 0 zero_mem ?e"
  let ?e' = monitor_env
  let ?p' = "started 0 zero_mem ?e'"
  have opts: "options (objs ?p 0) = parsed ?e" and z: "loopUsers (objs ?p 0) = 0"
    and h4: "app ?p = Some 0" and h5: "slots ?p = []"
    and h8: "\<not> (latch ?e \<and> exitRequested (loop (objs ?p 0)))"
    and h7: "CaptureDone \<notin> set (events ?e)" and nl: "\<not> latch ?e"
    by (simp_all add: started_def interrupted_monitor_env_def monitor_env_def quiet_env_def init_eq
        Let_def isSet_def options_empty_def CamApp_ctor_def process_start_def zero_mem_def)
  have h6: "loopUsers (objs ?p 0) + 1 \<noteq> 0"
    using z by simp
  have h1: "isSet (options (objs ?p 0)) OptMonitor" and h2: "\<not> isSet (options (objs ?p 0)) OptCapture"
    by (simp_all add: opts) (simp_all add: interrupted_monitor_env_def monitor_env_def quiet_env_def isSet_def)
  have none: "fst (plan 0 ?e ?p) = None"
    by (simp add: plan_error opts Let_def)
      (simp add: interrupted_monitor_env_def monitor_env_def quiet_env_def isSet_def)
  then obtain session p1 where h3: "plan 0 ?e ?p = (None, session, p1)"
    by (cases "plan 0 ?e ?p") auto
  have opts': "options (objs ?p' 0) = parsed ?e'" and z': "loopUsers (objs ?p' 0) = 0"
    and g4: "app ?p' = Some 0" and g5: "slots ?p' = []"
    and g8: "\<not> (latch ?e' \<and> exitRequested (loop (objs ?p' 0)))"
    and g7: "CaptureDone \<notin> set (events ?e')" and ns': "Signal \<notin> set (events ?e')"
    by (simp_all add: started_def monitor_env_def quiet_env_def init_eq
        Let_def isSet_def options_empty_def CamApp_ctor_def process_start_def zero_mem_def)
  have g6: "loopUsers (objs ?p' 0) + 1 \<noteq> 0"
    using z' by simp
  have g1: "isSet (options (objs ?p' 0)) OptMonitor" and g2: "\<not> isSet (options (objs ?p' 0)) OptCapture"
    by (simp_all add: opts') (simp_all add: monitor_env_def quiet_env_def isSet_def)
  have "fst (plan 0 ?e' ?p') = None"
    by (simp add: plan_error opts' Let_def) (simp add: monitor_env_def quiet_env_def isSet_def)
  then obtain session' p1' where g3: "plan 0 ?e' ?p' = (None, session', p1')"
    by (cases "plan 0 ?e' ?p'") auto
  have s: "Signal \<in> set (events ?e)"
    by (simp add: interrupted_monitor_env_def)
  have "case run 0 ?e ?p of
          Returns ret p' \<Rightarrow> Signal \<in> set (events ?e) \<and> ret = 0 \<and> loopUsers (objs p' 0) = 1
        | Blocks p' \<Rightarrow> Signal \<notin> set (events ?e) \<and> loopUsers (objs p' 0) = 1
        | NullDeref \<Rightarrow> False"
    using hotplug_handlers_only_print [OF h1 h2 h3 h4 h5 h6 h7 h8, of 0 "[]" ?p] z
    by (cases "run 0 ?e ?p") simp_all
  then have a: "\<exists>p'. run 0 ?e ?p = Returns 0 p' \<and> loopUsers (objs p' 0) = 1"
    using s by (cases "run 0 ?e ?p") simp_all
  have "case run 0 ?e' ?p' of
          Returns ret p' \<Rightarrow> Signal \<in> set (events ?e') \<and> ret = 0 \<and> loopUsers (objs p' 0) = 1
        | Blocks p' \<Rightarrow> Signal \<notin> set (events ?e') \<and> loopUsers (objs p' 0) = 1
        | NullDeref \<Rightarrow> False"
    using hotplug_handlers_only_print [OF g1 g2 g3 g4 g5 g6 g7 g8, of 0 "[]" ?p'] z'
    by (cases "run 0 ?e' ?p'") simp_all
  then have b: "\<exists>p'. run 0 ?e' ?p' = Blocks p' \<and> loopUsers (objs p' 0) = 1"
    using ns' by (cases "run 0 ?e' ?p'") simp_all
  from h1 h2 none h4 h5 h6 h7 nl a b show ?thesis
    by blast
qed

text \<open>C8. The code where the claim fails: the constructor does not initialise the counter,
  and from a memory that holds \<open>2 ^ 32 - 1\<close> there, monitoring takes the counter to 0. The
  loop is not entered, and the run returns 0 at once, with no signal caught and no
  notification delivered.\<close>

theorem monitor_run_returns_without_signal:
  "unat (loopUsers (wrapped_mem 0)) = 4294967295
   \<and> Signal \<notin> set (events monitor_env) \<and> early_sigint monitor_env = 0
   \<and> returned (main 0 wrapped_mem monitor_env) = Some 0
   \<and> trace (main 0 wrapped_mem monitor_env)
       = [CmStart, Cout ''Monitoring new hotplug and unplug events'',
          Cout ''Press Ctrl-C to interrupt'', Connect SigCameraAdded 0,
          Connect SigCameraRemoved 0, CmStop]"
  by (simp add: monitor_env_def quiet_env_def run_defs wrapped_mem_def unat_minus_one_word32)

subsection \<open>C9: the counter is unsigned\<close>

text \<open>C9. The outstanding-operation counter is a 32-bit unsigned integer. The
  completion handler decrements it modulo \<open>2 ^ 32\<close> and requests the loop's exit exactly
  when the counter was 1, that is when the result of the decrement is 0. A completion that
  arrives when the counter is 0 therefore wraps it to \<open>2 ^ 32 - 1\<close>, leaves it nonzero and
  leaves the loop's exit request as it was.\<close>

theorem captureDone_unsigned_wrap:
  "loopUsers (objs (captureDone this p) this) = loopUsers (objs p this) - 1
   \<and> unat (loopUsers (objs (captureDone this p) this))
       = (unat (loopUsers (objs p this)) + 2 ^ 32 - 1) mod 2 ^ 32
   \<and> loop (objs (captureDone this p) this)
       = (if loopUsers (objs p this) = 1 then EventLoop_exit 0 (loop (objs p this))
          else loop (objs p this))
   \<and> (loopUsers (objs p this) = 0 \<longrightarrow>
        unat (loopUsers (objs (captureDone this p) this)) = 4294967295
        \<and> loopUsers (objs (captureDone this p) this) \<noteq> 0
        \<and> loop (objs (captureDone this p) this) = loop (objs p this))"
  using unat_dec_word32 [of "loopUsers (objs p this)"]
  by (simp add: captureDone_objs unat_minus_one_word32)

theorem captureDone_unsigned_wrap_witness:
  "loopUsers (objs (process_start zero_mem) 0) = 0
   \<and> unat (loopUsers (objs (captureDone 0 (process_start zero_mem)) 0)) = 4294967295
   \<and> \<not> exitRequested (loop (objs (captureDone 0 (process_start zero_mem)) 0))"
  using captureDone_unsigned_wrap [of 0 "process_start zero_mem"]
  by (simp add: process_start_def zero_mem_def captureDone_objs unat_minus_one_word32)

subsection \<open>C10: the singleton\<close>

text \<open>C10. Before any construction \<open>CamApp::instance()\<close> is null (and the signal
  handler would dereference it). After any sequence of constructions it is the object
  constructed last, whatever was published before; \<open>init\<close> and \<open>exec\<close> leave it as it is;
  and the signal handler prints its line and calls \<open>quit\<close> on that object, which changes
  nothing but the exit request of that object's event loop.\<close>

theorem instance_is_latest:
  "CamApp_instance (process_start mem) = None
   \<and> signalHandler (process_start mem) = None
   \<and> CamApp_instance (fold CamApp_ctor (as @ [a]) p) = Some a
   \<and> signalHandler (fold CamApp_ctor (as @ [a]) p)
       = Some (quit a (emit [Cout ''Exiting''] (fold CamApp_ctor (as @ [a]) p)))
   \<and> objs (quit a q) = (objs q)(a := (objs q a)\<lparr>loop := EventLoop_exit 0 (loop (objs q a))\<rparr>)
   \<and> CamApp_instance (snd (init this e q)) = CamApp_instance q
   \<and> (final (exec this e q) = Some q' \<longrightarrow> CamApp_instance q' = CamApp_instance q)"
  using exec_app [of this e q q']
  by (simp add: CamApp_instance_def signalHandler_eq process_start_def)

theorem instance_is_latest_witness:
  "CamApp_instance (fold CamApp_ctor ([0] @ [1]) (process_start zero_mem)) = Some 1
   \<and> (\<exists>q'. final (exec 1 list_env (snd (init 1 list_env (CamApp_ctor 1 (process_start zero_mem)))))
               = Some q' \<and> CamApp_instance q' = Some 1)"
proof -
  let ?q = "snd (init 1 list_env (CamApp_ctor 1 (process_start zero_mem)))"
  have "\<exists>q'. final (exec 1 list_env ?q) = Some q'"
    by (simp add: run_defs list_env_def quiet_env_def zero_mem_def)
  then obtain q' where q': "final (exec 1 list_env ?q) = Some q'" ..
  have "CamApp_instance ?q = Some 1"
    by (simp add: CamApp_instance_def)
  with q' instance_is_latest [where mem = zero_mem and as = "[0]" and a = 1
      and p = "process_start zero_mem" and q = ?q and this = 1 and e = list_env and q' = q']
  show ?thesis by simp
qed

end
